theory Spec2Isabelle
  imports Complex_Main "HOL-Library.Word"
begin

unbundle bit_operations_syntax

text \<open>
  A shallow embedding of the utility library \<^verbatim>\<open>cpputil\<close> (namespace \<^verbatim>\<open>Utils\<close>): the
  writers of fixed-width integers and scaled floats into a byte buffer, \<^verbatim>\<open>Clamp\<close>,
  the vector search helpers, the \<^verbatim>\<open>printf\<close>-style string formatter, the rate scheduler
  and the angle normalization functions. The definitions come first, each following
  its C++ source; the properties proved of them follow.
\<close>

section \<open>Binary buffer writers\<close>

text \<open>
  The writers of the library take a raw pointer \<^verbatim>\<open>uint8_t* buffer\<close> and a pointer to
  a cursor \<^verbatim>\<open>int32_t* index\<close>. The code knows no capacity of the buffer, so the model
  is the memory seen through the pointer: \<open>buffer k\<close> is the byte at \<^verbatim>\<open>buffer[k]\<close>,
  for every offset \<open>k\<close>. The cursor is a 32-bit word whose signed reading \<open>sint\<close> is the
  offset; \<^verbatim>\<open>(*index)++\<close> is addition on that word. The buffer and the cursor are
  distinct objects of the caller; each function returns the pair of the buffer and the
  cursor as it leaves them.
\<close>

type_synonym uint8_t = "8 word"
type_synonym int16_t = "16 word"
type_synonym int32_t = "32 word"

text \<open>
  \<^verbatim>\<open>buffer[(*index)++] = number >> 8; buffer[(*index)++] = number;\<close>
  The operand \<^verbatim>\<open>number\<close> is promoted to \<^verbatim>\<open>int\<close> (sign extension to 32 bits), shifted
  arithmetically and narrowed to \<^verbatim>\<open>uint8_t\<close> by the assignment.
\<close>

definition BufAppendInt16 ::
  "(int \<Rightarrow> uint8_t) \<Rightarrow> int16_t \<Rightarrow> int32_t \<Rightarrow> (int \<Rightarrow> uint8_t) \<times> int32_t" where
  "BufAppendInt16 buffer number index =
     (let buffer = buffer(sint index := ucast (signed_drop_bit 8 (scast number :: 32 word)));
          index = index + 1;
          buffer = buffer(sint index := ucast number);
          index = index + 1
      in (buffer, index))"

definition BufAppendInt32 ::
  "(int \<Rightarrow> uint8_t) \<Rightarrow> int32_t \<Rightarrow> int32_t \<Rightarrow> (int \<Rightarrow> uint8_t) \<times> int32_t" where
  "BufAppendInt32 buffer number index =
     (let buffer = buffer(sint index := ucast (signed_drop_bit 24 number));
          index = index + 1;
          buffer = buffer(sint index := ucast (signed_drop_bit 16 number));
          index = index + 1;
          buffer = buffer(sint index := ucast (signed_drop_bit 8 number));
          index = index + 1;
          buffer = buffer(sint index := ucast number);
          index = index + 1
      in (buffer, index))"

text \<open>
  The library has no reader. The big-endian decoders below are the read-back that the
  round-trip properties are stated against: the first byte is the most significant.
\<close>

definition decode_be16 :: "uint8_t \<Rightarrow> uint8_t \<Rightarrow> int16_t" where
  "decode_be16 b0 b1 = push_bit 8 (ucast b0) OR ucast b1"

definition decode_be32 :: "uint8_t \<Rightarrow> uint8_t \<Rightarrow> uint8_t \<Rightarrow> uint8_t \<Rightarrow> int32_t" where
  "decode_be32 b0 b1 b2 b3 =
     push_bit 24 (ucast b0) OR push_bit 16 (ucast b1) OR push_bit 8 (ucast b2) OR ucast b3"

definition read_be16 :: "(int \<Rightarrow> uint8_t) \<Rightarrow> int32_t \<Rightarrow> int16_t" where
  "read_be16 buffer index = decode_be16 (buffer (sint index)) (buffer (sint (index + 1)))"

definition read_be32 :: "(int \<Rightarrow> uint8_t) \<Rightarrow> int32_t \<Rightarrow> int32_t" where
  "read_be32 buffer index =
     decode_be32 (buffer (sint index)) (buffer (sint (index + 1)))
       (buffer (sint (index + 2))) (buffer (sint (index + 3)))"

subsection \<open>Scaled floating-point values\<close>

text \<open>
  A finite \<^verbatim>\<open>float\<close> or \<^verbatim>\<open>double\<close> is read as the real number it denotes. The
  conversion of a floating value to an integer type is in the model as C++ defines it:
  the fractional part is discarded, and the behaviour is undefined (a \<open>fault\<close> here)
  when the truncated value does not fit the target type.
\<close>

datatype fault = DivisionByZero | ConversionOutOfRange

definition truncate_real :: "real \<Rightarrow> int" where
  "truncate_real x = (if 0 \<le> x then \<lfloor>x\<rfloor> else \<lceil>x\<rceil>)"

definition float_to_int16 :: "real \<Rightarrow> fault + int16_t" where
  "float_to_int16 x =
     (let t = truncate_real x
      in if - (2 ^ 15) \<le> t \<and> t < 2 ^ 15 then Inr (word_of_int t) else Inl ConversionOutOfRange)"

definition float_to_int32 :: "real \<Rightarrow> fault + int32_t" where
  "float_to_int32 x =
     (let t = truncate_real x
      in if - (2 ^ 31) \<le> t \<and> t < 2 ^ 31 then Inr (word_of_int t) else Inl ConversionOutOfRange)"

text \<open>
  The result of a floating-point operation is the exact result rounded to the format:
  to the nearest value with \<open>p\<close> binary digits, a tie going to the even one (the IEEE 754
  default). \<open>round_float p emin\<close> is that rounding for a format of precision \<open>p\<close> whose
  least normal exponent is \<open>emin\<close>; below \<open>2 powi emin\<close> the spacing stays that of the
  least normal binade (the subnormal numbers). The overflow to an infinity is not in the
  model: a value that large is out of the range of every integer type here.
  \<^verbatim>\<open>float\<close> is binary32 (24 digits, least exponent -126) and \<^verbatim>\<open>double\<close> is binary64
  (53 digits, least exponent -1022).
\<close>

definition round_half_even :: "real \<Rightarrow> int" where
  "round_half_even y =
     (let f = \<lfloor>y\<rfloor>; r = y - real_of_int f
      in if r < 1 / 2 then f else if 1 / 2 < r then f + 1 else if even f then f else f + 1)"

definition float_exponent :: "int \<Rightarrow> real \<Rightarrow> int" where
  "float_exponent emin x = max \<lfloor>log 2 \<bar>x\<bar>\<rfloor> emin"

definition round_float :: "nat \<Rightarrow> int \<Rightarrow> real \<Rightarrow> real" where
  "round_float p emin x =
     (if x = 0 then 0
      else let u = 2 powi (float_exponent emin x - int p + 1)
           in real_of_int (round_half_even (x / u)) * u)"

definition round_binary32 :: "real \<Rightarrow> real" where
  "round_binary32 x = round_float 24 (- 126) x"

definition round_binary64 :: "real \<Rightarrow> real" where
  "round_binary64 x = round_float 53 (- 1022) x"

text \<open>
  \<^verbatim>\<open>BufAppendInt16(buffer, (int16_t)(number * scale), index);\<close>
  The product of the two \<^verbatim>\<open>float\<close>s is a \<^verbatim>\<open>float\<close>.
\<close>

definition BufAppendFloat16 ::
  "(int \<Rightarrow> uint8_t) \<Rightarrow> real \<Rightarrow> real \<Rightarrow> int32_t \<Rightarrow> fault + (int \<Rightarrow> uint8_t) \<times> int32_t" where
  "BufAppendFloat16 buffer number scale index =
     (case float_to_int16 (round_binary32 (number * scale)) of
        Inl e \<Rightarrow> Inl e
      | Inr n \<Rightarrow> Inr (BufAppendInt16 buffer n index))"

text \<open>\<^verbatim>\<open>BufAppendInt32(buffer, (int32_t)(number * scale), index);\<close>\<close>

definition BufAppendFloat32 ::
  "(int \<Rightarrow> uint8_t) \<Rightarrow> real \<Rightarrow> real \<Rightarrow> int32_t \<Rightarrow> fault + (int \<Rightarrow> uint8_t) \<times> int32_t" where
  "BufAppendFloat32 buffer number scale index =
     (case float_to_int32 (round_binary32 (number * scale)) of
        Inl e \<Rightarrow> Inl e
      | Inr n \<Rightarrow> Inr (BufAppendInt32 buffer n index))"

section \<open>Container helpers\<close>

text \<open>
  \<^verbatim>\<open>std::max(a, b)\<close> is \<^verbatim>\<open>(a < b) ? b : a\<close> and \<^verbatim>\<open>std::min(a, b)\<close> is
  \<^verbatim>\<open>(b < a) ? b : a\<close>. The element type is a total order.
\<close>

definition std_max :: "'a::linorder \<Rightarrow> 'a \<Rightarrow> 'a" where
  "std_max a b = (if a < b then b else a)"

definition std_min :: "'a::linorder \<Rightarrow> 'a \<Rightarrow> 'a" where
  "std_min a b = (if b < a then b else a)"

text \<open>\<^verbatim>\<open>return std::min(std::max(val, lowerBound), upperBound);\<close>\<close>

definition Clamp :: "'a::linorder \<Rightarrow> 'a \<Rightarrow> 'a \<Rightarrow> 'a" where
  "Clamp val upperBound lowerBound = std_min (std_max val lowerBound) upperBound"

text \<open>
  \<^verbatim>\<open>std::find(v.begin(), v.end(), x)\<close> walks the vector from the front and stops at the
  first element equal to \<open>x\<close>. \<open>std_find v x\<close> is the distance of the iterator it returns
  from \<^verbatim>\<open>v.begin()\<close>; the distance of \<^verbatim>\<open>v.end()\<close> is \<open>length v\<close>.
\<close>

fun std_find :: "'a list \<Rightarrow> 'a \<Rightarrow> nat" where
  "std_find [] x = 0"
| "std_find (y # ys) x = (if y = x then 0 else Suc (std_find ys x))"

text \<open>\<^verbatim>\<open>return std::find(v.begin(), v.end(), x) != v.end();\<close>\<close>

definition VecContains :: "'a list \<Rightarrow> 'a \<Rightarrow> bool" where
  "VecContains v x = (std_find v x \<noteq> length v)"

text \<open>
  \<^verbatim>\<open>ptrdiff_t pos = find(v.begin(), v.end(), x) - v.begin();
  if (pos >= v.size()) return -1; return pos;\<close>
\<close>

definition VecIndexOf :: "'a list \<Rightarrow> 'a \<Rightarrow> int" where
  "VecIndexOf v x =
     (let pos = int (std_find v x)
      in if pos \<ge> int (length v) then - 1 else pos)"

section \<open>String formatting\<close>

text \<open>
  The system formatter behind \<^verbatim>\<open>snprintf\<close> is a parameter: from a format and the
  arguments it yields the whole formatted text, or nothing when it reports an error.
  \<open>snprintf\<close> is the C function over it: it returns a negative value on an error (also
  when the text is longer than \<^verbatim>\<open>INT_MAX\<close>), and otherwise the length of the whole
  text, having written at most \<open>n - 1\<close> characters of it before the terminator.
\<close>

datatype 'a fmt_arg = StdString string | Other 'a

datatype 'a c_arg = CharPtr string | Plain 'a

type_synonym 'a formatter = "string \<Rightarrow> 'a c_arg list \<Rightarrow> string option"

definition c_str :: "string \<Rightarrow> string" where
  "c_str s = takeWhile (\<lambda>c. c \<noteq> CHR 0x00) s"

text \<open>\<^verbatim>\<open>_convert\<close>: a \<^verbatim>\<open>std::string\<close> becomes its \<^verbatim>\<open>c_str()\<close>, anything else is passed on.\<close>

fun convert :: "'a fmt_arg \<Rightarrow> 'a c_arg" where
  "convert (StdString s) = CharPtr (c_str s)"
| "convert (Other a) = Plain a"

definition snprintf :: "'a formatter \<Rightarrow> nat \<Rightarrow> string \<Rightarrow> 'a c_arg list \<Rightarrow> int \<times> string" where
  "snprintf F n fmt args =
     (case F fmt args of
        None \<Rightarrow> (- 1, [])
      | Some out \<Rightarrow>
          if int (length out) > 2 ^ 31 - 1 then (- 1, [])
          else (int (length out), take (n - 1) out))"

text \<open>
  \<^verbatim>\<open>_strfmt\<close>: the first call measures, the second one fills a buffer of \<^verbatim>\<open>size\<close>
  characters. \<^verbatim>\<open>size\<close> is an \<^verbatim>\<open>int\<close>: the addition wraps at 32 bits.
\<close>

definition strfmt :: "'a formatter \<Rightarrow> string \<Rightarrow> 'a c_arg list \<Rightarrow> string" where
  "strfmt F fmt args =
     (let size = sint (word_of_int (fst (snprintf F 0 (c_str fmt) args)) + 1 :: 32 word)
      in if size \<le> 0 then ''<StrFmt error>''
         else let buf = snd (snprintf F (nat size) (c_str fmt) args)
              in take (nat (size - 1)) buf)"

text \<open>\<^verbatim>\<open>return _strfmt(fmt, _convert(std::forward<A>(args))...);\<close>\<close>

definition StrFmt :: "'a formatter \<Rightarrow> string \<Rightarrow> 'a fmt_arg list \<Rightarrow> string" where
  "StrFmt F fmt args = strfmt F fmt (map convert args)"

section \<open>Rate scheduler\<close>

text \<open>
  The clock and the sleep are effects on a world that is passed along. The world holds
  what \<^verbatim>\<open>high_resolution_clock::now()\<close> reads at each of its queries (in ticks of one
  nanosecond), the number of queries made so far, and the durations in milliseconds
  that \<^verbatim>\<open>sleep_for\<close> has been called with, oldest first. How long a sleep lasts is up
  to the readings of the clock that follow it. The \<^verbatim>\<open>double\<close>s of the function are real
  numbers with exact arithmetic; a division by zero and a conversion to \<^verbatim>\<open>int\<close> of a
  value out of its range are faults.
\<close>

type_synonym time_point = int

record world =
  ticks :: "nat \<Rightarrow> time_point"
  queries :: nat
  sleeps :: "int list"

definition clock_now :: "world \<Rightarrow> time_point \<times> world" where
  "clock_now w = (ticks w (queries w), w\<lparr>queries := queries w + 1\<rparr>)"

definition sleep_for :: "int \<Rightarrow> world \<Rightarrow> world" where
  "sleep_for ms w = w\<lparr>sleeps := sleeps w @ [ms]\<rparr>"

text \<open>Division of C++ integers truncates towards zero.\<close>

definition cdiv :: "int \<Rightarrow> int \<Rightarrow> int" where
  "cdiv a b = sgn a * sgn b * (\<bar>a\<bar> div \<bar>b\<bar>)"

definition duration_cast_ms :: "int \<Rightarrow> int" where
  "duration_cast_ms d = cdiv d 1000000"

text \<open>
  The whole milliseconds between \<open>start_time\<close> and the \<open>k\<close>-th reading of the clock, as
  the properties below refer to them.
\<close>

definition elapsed_ms :: "world \<Rightarrow> time_point \<Rightarrow> nat \<Rightarrow> int" where
  "elapsed_ms w start_time k = duration_cast_ms (ticks w k - start_time)"

text \<open>The count of milliseconds is a 64-bit value; \<^verbatim>\<open>int dt = ...\<close> keeps its low 32 bits.\<close>

definition narrow_int :: "int \<Rightarrow> int" where
  "narrow_int c = sint (word_of_int c :: 32 word)"

definition float_to_int :: "real \<Rightarrow> fault + int" where
  "float_to_int x =
     (let t = truncate_real x
      in if - (2 ^ 31) \<le> t \<and> t < 2 ^ 31 then Inr t else Inl ConversionOutOfRange)"

text \<open>
  \<^verbatim>\<open>int dt = duration_cast<milliseconds>(now() - start_time).count();
  if (dt < 1000 / rate) { sleep_for(milliseconds(int(1000.0 / rate - dt - 2))); }
  else { return dt / 1000.0; }
  return duration_cast<milliseconds>(now() - start_time).count() / 1000.0;\<close>
\<close>

definition ScheduleRate :: "int \<Rightarrow> time_point \<Rightarrow> world \<Rightarrow> fault + real \<times> world" where
  "ScheduleRate rate start_time w =
     (let (t1, w) = clock_now w;
          dt = narrow_int (duration_cast_ms (t1 - start_time))
      in if rate = 0 then Inl DivisionByZero
         else if dt < cdiv 1000 rate then
           (case float_to_int (1000 / real_of_int rate - real_of_int dt - 2) of
              Inl e \<Rightarrow> Inl e
            | Inr d \<Rightarrow>
                let w = sleep_for d w;
                    (t2, w) = clock_now w
                in Inr (real_of_int (duration_cast_ms (t2 - start_time)) / 1000, w))
         else Inr (real_of_int dt / 1000, w))"

text \<open>
  Two names for the properties below: the elapsed milliseconds as the function has them
  in \<^verbatim>\<open>dt\<close> at its first reading of the clock, and the duration it passes to
  \<^verbatim>\<open>sleep_for\<close> when \<^verbatim>\<open>dt\<close> is that.
\<close>

definition measured_ms :: "world \<Rightarrow> time_point \<Rightarrow> int" where
  "measured_ms w start_time = narrow_int (elapsed_ms w start_time (queries w))"

definition sleep_budget :: "int \<Rightarrow> int \<Rightarrow> int" where
  "sleep_budget rate dt = truncate_real (1000 / real_of_int rate - real_of_int dt - 2)"

section \<open>Angles\<close>

text \<open>
  The angles are real numbers and their arithmetic is exact. \<^verbatim>\<open>fmod(x, y)\<close> of the C
  library is \<open>x - n * y\<close> for the integer \<open>n\<close> that is the quotient \<open>x / y\<close> with its
  fractional part discarded; the result has the sign of \<open>x\<close>. \<^verbatim>\<open>M_PI\<close> is \<open>\<pi>\<close>.
\<close>

definition fmod :: "real \<Rightarrow> real \<Rightarrow> real" where
  "fmod x y = x - real_of_int (truncate_real (x / y)) * y"

definition M_PI :: real where
  "M_PI = pi"

definition NormalizeAnglePositive :: "real \<Rightarrow> real" where
  "NormalizeAnglePositive angle = fmod (fmod angle (2 * M_PI) + 2 * M_PI) (2 * M_PI)"

definition NormalizeAngle :: "real \<Rightarrow> real" where
  "NormalizeAngle angle =
     (let a = NormalizeAnglePositive angle
      in if a > M_PI then a - 2 * M_PI else a)"

definition ShortestAngularDistance :: "real \<Rightarrow> real \<Rightarrow> real" where
  "ShortestAngularDistance from to =
     (let result = NormalizeAnglePositive (NormalizeAnglePositive to - NormalizeAnglePositive from);
          result = (if result > M_PI then - (2 * M_PI - result) else result)
      in NormalizeAngle result)"

text \<open>
  In the code the angles are \<^verbatim>\<open>double\<close>s, and the result of every sum and difference
  is rounded to binary64. The functions below are the same three functions with that
  rounding written out. \<^verbatim>\<open>M_PI\<close> is the \<^verbatim>\<open>double\<close> nearest to \<open>\<pi>\<close>,
  \<open>884279719003555 / 2 ^ 48\<close> (3.141592653589793116), and \<^verbatim>\<open>2.0 * M_PI\<close> is the rounded
  product. \<^verbatim>\<open>fmod\<close> of the C library returns the exact remainder, which is a \<^verbatim>\<open>double\<close>
  when its arguments are, so it is not rounded.
\<close>

definition M_PI64 :: real where
  "M_PI64 = 884279719003555 / 2 ^ 48"

definition TWO_PI64 :: real where
  "TWO_PI64 = round_binary64 (2 * M_PI64)"

definition NormalizeAnglePositive64 :: "real \<Rightarrow> real" where
  "NormalizeAnglePositive64 angle =
     fmod (round_binary64 (fmod angle TWO_PI64 + TWO_PI64)) TWO_PI64"

definition NormalizeAngle64 :: "real \<Rightarrow> real" where
  "NormalizeAngle64 angle =
     (let a = NormalizeAnglePositive64 angle
      in if a > M_PI64 then round_binary64 (a - TWO_PI64) else a)"

definition ShortestAngularDistance64 :: "real \<Rightarrow> real \<Rightarrow> real" where
  "ShortestAngularDistance64 from to =
     (let result = NormalizeAnglePositive64
            (round_binary64 (NormalizeAnglePositive64 to - NormalizeAnglePositive64 from));
          result = (if result > M_PI64 then - round_binary64 (TWO_PI64 - result) else result)
      in NormalizeAngle64 result)"

section \<open>Properties of the buffer writers\<close>

subsection \<open>The bytes that the shifts produce\<close>

lemma byte1_of_int16:
  "(ucast (signed_drop_bit 8 (scast (n :: int16_t) :: 32 word)) :: uint8_t) = ucast (drop_bit 8 n)"
  by (rule bit_word_eqI) (auto simp: bit_simps)

lemma byte3_of_int32:
  "(ucast (signed_drop_bit 24 (n :: int32_t)) :: uint8_t) = ucast (drop_bit 24 n)"
  by (rule bit_word_eqI) (auto simp: bit_simps)

lemma byte2_of_int32:
  "(ucast (signed_drop_bit 16 (n :: int32_t)) :: uint8_t) = ucast (drop_bit 16 n)"
  by (rule bit_word_eqI) (auto simp: bit_simps)

lemma byte1_of_int32:
  "(ucast (signed_drop_bit 8 (n :: int32_t)) :: uint8_t) = ucast (drop_bit 8 n)"
  by (rule bit_word_eqI) (auto simp: bit_simps)

lemma decode_be16_bytes:
  "decode_be16 (ucast (drop_bit 8 n)) (ucast n) = n"
  unfolding decode_be16_def
  by (rule bit_word_eqI) (auto simp: bit_simps)

lemma decode_be32_bytes:
  "decode_be32 (ucast (drop_bit 24 n)) (ucast (drop_bit 16 n)) (ucast (drop_bit 8 n)) (ucast n) = n"
  unfolding decode_be32_def
proof (rule bit_word_eqI)
  fix k assume "k < LENGTH(32)"
  then have k: "k < 32" by simp
  consider "k < 8" | "8 \<le> k" "k < 16" | "16 \<le> k" "k < 24" | "24 \<le> k" by linarith
  then show "bit (push_bit 24 (ucast (ucast (drop_bit 24 n) :: uint8_t)) OR
        push_bit 16 (ucast (ucast (drop_bit 16 n) :: uint8_t)) OR
        push_bit 8 (ucast (ucast (drop_bit 8 n) :: uint8_t)) OR
        ucast (ucast n :: uint8_t) :: int32_t) k = bit n k"
    using k by cases (auto simp: bit_simps)
qed

subsection \<open>Successive cursor positions are distinct offsets\<close>

lemma sint_offset_neq:
  fixes i :: int32_t
  assumes "a \<noteq> b"
  shows "sint (i + a) \<noteq> sint (i + b)"
proof
  assume "sint (i + a) = sint (i + b)"
  then have "i + a = i + b" by (rule signed_word_eqI)
  with assms show False by simp
qed

lemma cursor_positions_distinct:
  fixes i :: int32_t
  shows "sint (i + 1) \<noteq> sint i" "sint (i + 2) \<noteq> sint i" "sint (i + 3) \<noteq> sint i"
    "sint (i + 2) \<noteq> sint (i + 1)" "sint (i + 3) \<noteq> sint (i + 1)"
    "sint (i + 3) \<noteq> sint (i + 2)"
  using sint_offset_neq [of 1 0 i] sint_offset_neq [of 2 0 i] sint_offset_neq [of 3 0 i]
    sint_offset_neq [of 2 1 i] sint_offset_neq [of 3 1 i] sint_offset_neq [of 3 2 i]
  by simp_all

subsection \<open>Signed readings of words\<close>

lemma sint16_of_int:
  "- (2 ^ 15) \<le> k \<Longrightarrow> k < 2 ^ 15 \<Longrightarrow> sint (word_of_int k :: 16 word) = k"
  by (simp add: sint_sbintrunc' signed_take_bit_int_eq_self)

lemma sint32_of_int:
  "- (2 ^ 31) \<le> k \<Longrightarrow> k < 2 ^ 31 \<Longrightarrow> sint (word_of_int k :: 32 word) = k"
  by (simp add: sint_sbintrunc' signed_take_bit_int_eq_self)

lemma cursor_no_wrap:
  fixes i :: int32_t
  assumes "0 \<le> k" and "sint i + k < 2 ^ 31"
  shows "sint (i + word_of_int k) = sint i + k"
proof -
  have "i + word_of_int k = word_of_int (sint i + k)" by simp
  moreover have "- (2 ^ 31) \<le> sint i + k"
    using sint_ge [of i] assms(1) by simp
  ultimately show ?thesis using assms(2) by (simp only: sint32_of_int)
qed

lemma cursor_steps:
  fixes i :: int32_t
  shows "sint i + 1 < 2 ^ 31 \<Longrightarrow> sint (i + 1) = sint i + 1"
    and "sint i + 2 < 2 ^ 31 \<Longrightarrow> sint (i + 2) = sint i + 2"
    and "sint i + 3 < 2 ^ 31 \<Longrightarrow> sint (i + 3) = sint i + 3"
    and "sint i + 4 < 2 ^ 31 \<Longrightarrow> sint (i + 4) = sint i + 4"
  using cursor_no_wrap [of 1 i] cursor_no_wrap [of 2 i] cursor_no_wrap [of 3 i]
    cursor_no_wrap [of 4 i]
  by simp_all

subsection \<open>What each writer leaves behind\<close>

lemma BufAppendInt16_result:
  "BufAppendInt16 b n i =
     (b(sint i := ucast (drop_bit 8 n), sint (i + 1) := ucast n), i + 2)"
  by (simp add: BufAppendInt16_def Let_def byte1_of_int16)

lemma BufAppendInt32_result:
  "BufAppendInt32 b n i =
     (b(sint i := ucast (drop_bit 24 n), sint (i + 1) := ucast (drop_bit 16 n),
        sint (i + 2) := ucast (drop_bit 8 n), sint (i + 3) := ucast n), i + 4)"
  by (simp add: BufAppendInt32_def Let_def byte1_of_int32 byte2_of_int32 byte3_of_int32
      add.assoc)

lemma BufAppendInt16_cursor: "snd (BufAppendInt16 b n i) = i + 2"
  by (simp add: BufAppendInt16_result)

lemma BufAppendInt32_cursor: "snd (BufAppendInt32 b n i) = i + 4"
  by (simp add: BufAppendInt32_result)

lemma BufAppendInt16_offsets:
  "sint i + 2 < 2 ^ 31 \<Longrightarrow>
     sint (i + 1) = sint i + 1 \<and> sint (snd (BufAppendInt16 b n i)) = sint i + 2"
  by (simp add: BufAppendInt16_cursor cursor_steps)

lemma BufAppendInt32_offsets:
  "sint i + 4 < 2 ^ 31 \<Longrightarrow>
     sint (i + 1) = sint i + 1 \<and> sint (i + 2) = sint i + 2 \<and> sint (i + 3) = sint i + 3
     \<and> sint (snd (BufAppendInt32 b m i)) = sint i + 4"
  by (simp add: BufAppendInt32_cursor cursor_steps)

lemma BufAppendInt16_bytes:
  "fst (BufAppendInt16 b n i) (sint i) = ucast (drop_bit 8 n)"
  "fst (BufAppendInt16 b n i) (sint (i + 1)) = ucast n"
  using cursor_positions_distinct [of i] by (simp_all add: BufAppendInt16_result)

lemma BufAppendInt32_bytes:
  "fst (BufAppendInt32 b n i) (sint i) = ucast (drop_bit 24 n)"
  "fst (BufAppendInt32 b n i) (sint (i + 1)) = ucast (drop_bit 16 n)"
  "fst (BufAppendInt32 b n i) (sint (i + 2)) = ucast (drop_bit 8 n)"
  "fst (BufAppendInt32 b n i) (sint (i + 3)) = ucast n"
  using cursor_positions_distinct [of i] by (simp_all add: BufAppendInt32_result)

lemma BufAppendInt16_roundtrip:
  "decode_be16 (fst (BufAppendInt16 b n i) (sint i))
     (fst (BufAppendInt16 b n i) (sint (i + 1))) = n"
  by (simp only: BufAppendInt16_bytes decode_be16_bytes)

lemma BufAppendInt32_roundtrip:
  "decode_be32 (fst (BufAppendInt32 b n i) (sint i))
     (fst (BufAppendInt32 b n i) (sint (i + 1)))
     (fst (BufAppendInt32 b n i) (sint (i + 2)))
     (fst (BufAppendInt32 b n i) (sint (i + 3))) = n"
  by (simp only: BufAppendInt32_bytes decode_be32_bytes)

lemma BufAppend_scenario:
  "(case BufAppendInt32 b 0x12345678 0 of
      (b1, i1) \<Rightarrow> (case BufAppendInt16 b1 0x1A2B i1 of
        (b2, i2) \<Rightarrow> map b2 [0, 1, 2, 3, 4, 5] = [0x12, 0x34, 0x56, 0x78, 0x1A, 0x2B] \<and> i2 = 6))"
  by (simp add: BufAppendInt32_def BufAppendInt16_def Let_def)

text \<open>
  Claim C1. For every 16-bit value, buffer and cursor, \<open>BufAppendInt16\<close> leaves the
  more significant byte of the value at the cursor and the less significant one at the
  next position, and the cursor advanced by 2, so that the big-endian decoding of the
  two bytes is the value; \<open>BufAppendInt32\<close> leaves the four bytes of its value, the most
  significant first, and the cursor advanced by 4, with the same round trip. The
  cursor is advanced in 32-bit arithmetic; where that does not wrap around, the
  positions written are the offsets \<open>i\<close>, \<open>i + 1\<close>, ... as integers and the new cursor
  is the integer \<open>i + 2\<close> or \<open>i + 4\<close>. From cursor 0, appending the 32-bit value
  \<open>0x12345678\<close> and then the 16-bit value \<open>0x1A2B\<close> gives the bytes
  \<open>0x12, 0x34, 0x56, 0x78, 0x1A, 0x2B\<close> and the cursor 6.
\<close>

theorem BufAppend_big_endian_roundtrip:
  "snd (BufAppendInt16 b n i) = i + 2
   \<and> fst (BufAppendInt16 b n i) (sint i) = ucast (drop_bit 8 n)
   \<and> fst (BufAppendInt16 b n i) (sint (i + 1)) = ucast n
   \<and> decode_be16 (fst (BufAppendInt16 b n i) (sint i))
        (fst (BufAppendInt16 b n i) (sint (i + 1))) = n
   \<and> (sint i + 2 < 2 ^ 31 \<longrightarrow>
        sint (i + 1) = sint i + 1 \<and> sint (snd (BufAppendInt16 b n i)) = sint i + 2)
   \<and> snd (BufAppendInt32 b m i) = i + 4
   \<and> fst (BufAppendInt32 b m i) (sint i) = ucast (drop_bit 24 m)
   \<and> fst (BufAppendInt32 b m i) (sint (i + 1)) = ucast (drop_bit 16 m)
   \<and> fst (BufAppendInt32 b m i) (sint (i + 2)) = ucast (drop_bit 8 m)
   \<and> fst (BufAppendInt32 b m i) (sint (i + 3)) = ucast m
   \<and> decode_be32 (fst (BufAppendInt32 b m i) (sint i))
        (fst (BufAppendInt32 b m i) (sint (i + 1)))
        (fst (BufAppendInt32 b m i) (sint (i + 2)))
        (fst (BufAppendInt32 b m i) (sint (i + 3))) = m
   \<and> (sint i + 4 < 2 ^ 31 \<longrightarrow>
        sint (i + 1) = sint i + 1 \<and> sint (i + 2) = sint i + 2 \<and> sint (i + 3) = sint i + 3
        \<and> sint (snd (BufAppendInt32 b m i)) = sint i + 4)
   \<and> (case BufAppendInt32 b 0x12345678 0 of
        (b1, i1) \<Rightarrow> (case BufAppendInt16 b1 0x1A2B i1 of
          (b2, i2) \<Rightarrow>
            map b2 [0, 1, 2, 3, 4, 5] = [0x12, 0x34, 0x56, 0x78, 0x1A, 0x2B] \<and> i2 = 6))"
  using BufAppendInt16_offsets [of i b n] BufAppendInt32_offsets [of i b m]
  by (intro conjI impI BufAppendInt16_cursor BufAppendInt32_cursor BufAppendInt16_bytes
      BufAppendInt32_bytes BufAppendInt16_roundtrip BufAppendInt32_roundtrip BufAppend_scenario)
    simp_all

theorem BufAppend_big_endian_roundtrip_witness:
  "fst (BufAppendInt16 (\<lambda>_. 0) (- 2) 7) 7 = 0xFF
   \<and> fst (BufAppendInt16 (\<lambda>_. 0) (- 2) 7) 8 = 0xFE
   \<and> sint (snd (BufAppendInt16 (\<lambda>_. 0) (- 2) 7)) = 9
   \<and> sint (decode_be16 0xFF 0xFE) = - 2
   \<and> map (fst (BufAppendInt32 (\<lambda>_. 0) 0x12345678 7)) [7, 8, 9, 10] = [0x12, 0x34, 0x56, 0x78]
   \<and> sint (snd (BufAppendInt32 (\<lambda>_. 0) 0x12345678 7)) = 11"
  using BufAppend_big_endian_roundtrip [of "\<lambda>_. 0" "- 2" 7 "0x12345678"]
  by (simp add: decode_be16_def)

text \<open>
  Claim C10. \<open>BufAppendInt16\<close> changes the buffer at the cursor position and the next
  one only, and \<open>BufAppendInt32\<close> at the four positions from the cursor on only: every
  other byte of the buffer is as it was. The functions return the buffer and the cursor
  and nothing else, so no other state of the caller is touched.
\<close>

theorem BufAppend_frame:
  "(\<forall>k. k \<noteq> sint i \<and> k \<noteq> sint (i + 1) \<longrightarrow> fst (BufAppendInt16 b n i) k = b k)
   \<and> (\<forall>k. k \<noteq> sint i \<and> k \<noteq> sint (i + 1) \<and> k \<noteq> sint (i + 2) \<and> k \<noteq> sint (i + 3)
        \<longrightarrow> fst (BufAppendInt32 b m i) k = b k)"
  by (simp add: BufAppendInt16_result BufAppendInt32_result)

theorem BufAppend_frame_witness:
  "fst (BufAppendInt16 (\<lambda>k. if k = 7 then 0xAB else 0) 0x1A2B 5) 7 = 0xAB
   \<and> fst (BufAppendInt16 (\<lambda>k. if k = 7 then 0xAB else 0) 0x1A2B 5) 4 = 0
   \<and> fst (BufAppendInt32 (\<lambda>k. if k = 7 then 0xAB else 0) 0x12345678 8) 7 = 0xAB
   \<and> fst (BufAppendInt32 (\<lambda>k. if k = 7 then 0xAB else 0) 0x12345678 8) 12 = 0"
  using BufAppend_frame [of 5 "\<lambda>k. if k = 7 then 0xAB else 0" "0x1A2B"]
    BufAppend_frame [of 8 "\<lambda>k. if k = 7 then 0xAB else 0" _  "0x12345678"]
  by simp

section \<open>Properties of the rounding to a floating-point format\<close>

subsection \<open>Rounding to an integer, ties to even\<close>

lemma round_half_even_error: "\<bar>real_of_int (round_half_even y) - y\<bar> \<le> 1 / 2"
  unfolding round_half_even_def Let_def by (auto; linarith)

lemma round_half_even_of_int [simp]: "round_half_even (real_of_int n) = n"
  unfolding round_half_even_def Let_def by simp

lemma round_half_even_mono:
  assumes "y \<le> z"
  shows "round_half_even y \<le> round_half_even z"
proof (rule ccontr)
  assume "\<not> round_half_even y \<le> round_half_even z"
  then have "round_half_even z + 1 \<le> round_half_even y" by simp
  then have "real_of_int (round_half_even z) + 1 \<le> real_of_int (round_half_even y)"
    by (metis of_int_1 of_int_add of_int_le_iff)
  with round_half_even_error [of y] round_half_even_error [of z] assms
  have "y = z" by linarith
  with \<open>\<not> round_half_even y \<le> round_half_even z\<close> show False by simp
qed

lemma round_half_even_ge: "real_of_int n \<le> y \<Longrightarrow> n \<le> round_half_even y"
  using round_half_even_mono [of "real_of_int n" y] by simp

lemma round_half_even_le: "y \<le> real_of_int n \<Longrightarrow> round_half_even y \<le> n"
  using round_half_even_mono [of y "real_of_int n"] by simp

lemma round_half_even_minus: "round_half_even (- y) = - round_half_even y"
proof (cases "y = real_of_int \<lfloor>y\<rfloor>")
  case True
  then obtain n where "y = real_of_int n" ..
  then show ?thesis by (simp flip: of_int_minus)
next
  case False
  then have a: "real_of_int \<lfloor>y\<rfloor> < y" and b: "y < real_of_int \<lfloor>y\<rfloor> + 1"
    by linarith+
  have fl: "\<lfloor>- y\<rfloor> = - \<lfloor>y\<rfloor> - 1"
  proof (rule floor_unique)
    show "real_of_int (- \<lfloor>y\<rfloor> - 1) \<le> - y" by (simp; linarith)
    show "- y < real_of_int (- \<lfloor>y\<rfloor> - 1) + 1" using a by (simp; linarith)
  qed
  show ?thesis
    unfolding round_half_even_def Let_def fl
    by (auto simp: algebra_simps)
qed


lemma two_powr_int: "(2::real) powr real_of_int n = 2 powi n"
  by (rule powr_real_of_int') simp_all

lemma floor_log2_bounds:
  assumes "0 < a"
  shows "2 powi \<lfloor>log 2 a\<rfloor> \<le> a" and "a < 2 powi (\<lfloor>log 2 a\<rfloor> + 1)"
proof -
  have "2 powr real_of_int \<lfloor>log 2 a\<rfloor> \<le> a \<and> a < 2 powr (real_of_int \<lfloor>log 2 a\<rfloor> + 1)"
    using floor_log_eq_powr_iff [of a 2 "\<lfloor>log 2 a\<rfloor>"] assms by simp
  moreover have "real_of_int \<lfloor>log 2 a\<rfloor> + 1 = real_of_int (\<lfloor>log 2 a\<rfloor> + 1)" by simp
  ultimately show "2 powi \<lfloor>log 2 a\<rfloor> \<le> a" and "a < 2 powi (\<lfloor>log 2 a\<rfloor> + 1)"
    by (simp_all only: two_powr_int)
qed

lemma floor_log2_eqI:
  assumes "0 < a" and "2 powi e \<le> a" and "a < 2 powi (e + 1)"
  shows "\<lfloor>log 2 a\<rfloor> = e"
proof -
  have "real_of_int e + 1 = real_of_int (e + 1)" by simp
  then have "2 powr real_of_int e \<le> a \<and> a < 2 powr (real_of_int e + 1)"
    using assms(2,3) by (simp only: two_powr_int)
  then show ?thesis
    using floor_log_eq_powr_iff [of a 2 e] assms(1) by simp
qed

lemma float_exponent_ge: "emin \<le> float_exponent emin x"
  by (simp add: float_exponent_def)

lemma float_exponent_minus: "float_exponent emin (- x) = float_exponent emin x"
  by (simp add: float_exponent_def)

lemma float_exponent_upper:
  assumes "x \<noteq> 0"
  shows "\<bar>x\<bar> < 2 powi (float_exponent emin x + 1)"
proof -
  have "\<bar>x\<bar> < 2 powi (\<lfloor>log 2 \<bar>x\<bar>\<rfloor> + 1)"
    using assms by (intro floor_log2_bounds) simp
  also have "\<dots> \<le> 2 powi (float_exponent emin x + 1)"
    by (intro power_int_increasing) (simp_all add: float_exponent_def)
  finally show ?thesis .
qed

lemma float_exponent_normal:
  assumes "x \<noteq> 0" and "2 powi emin \<le> \<bar>x\<bar>"
  shows "float_exponent emin x = \<lfloor>log 2 \<bar>x\<bar>\<rfloor>" and "2 powi (float_exponent emin x) \<le> \<bar>x\<bar>"
proof -
  have pos: "0 < \<bar>x\<bar>" using assms(1) by simp
  have "emin \<le> \<lfloor>log 2 \<bar>x\<bar>\<rfloor>"
  proof (rule ccontr)
    assume "\<not> emin \<le> \<lfloor>log 2 \<bar>x\<bar>\<rfloor>"
    then have "\<lfloor>log 2 \<bar>x\<bar>\<rfloor> + 1 \<le> emin" by simp
    then have "(2::real) powi (\<lfloor>log 2 \<bar>x\<bar>\<rfloor> + 1) \<le> 2 powi emin"
      by (intro power_int_increasing) simp_all
    with floor_log2_bounds(2) [OF pos] assms(2) show False by linarith
  qed
  then show e: "float_exponent emin x = \<lfloor>log 2 \<bar>x\<bar>\<rfloor>"
    by (simp add: float_exponent_def)
  show "2 powi (float_exponent emin x) \<le> \<bar>x\<bar>"
    unfolding e using pos by (rule floor_log2_bounds)
qed

lemma float_exponent_subnormal:
  assumes "x \<noteq> 0" and "\<bar>x\<bar> < 2 powi emin"
  shows "float_exponent emin x = emin"
proof -
  have pos: "0 < \<bar>x\<bar>" using assms(1) by simp
  have "\<lfloor>log 2 \<bar>x\<bar>\<rfloor> \<le> emin"
  proof (rule ccontr)
    assume "\<not> \<lfloor>log 2 \<bar>x\<bar>\<rfloor> \<le> emin"
    then have "emin \<le> \<lfloor>log 2 \<bar>x\<bar>\<rfloor>" by simp
    then have "(2::real) powi emin \<le> 2 powi \<lfloor>log 2 \<bar>x\<bar>\<rfloor>"
      by (intro power_int_increasing) simp_all
    with floor_log2_bounds(1) [OF pos] assms(2) show False by linarith
  qed
  then show ?thesis by (simp add: float_exponent_def)
qed

lemma float_exponent_eqI:
  assumes "x \<noteq> 0" and "emin \<le> e" and "2 powi e \<le> \<bar>x\<bar>" and "\<bar>x\<bar> < 2 powi (e + 1)"
  shows "float_exponent emin x = e"
proof -
  have "\<lfloor>log 2 \<bar>x\<bar>\<rfloor> = e"
    using assms by (intro floor_log2_eqI) simp_all
  with assms(2) show ?thesis by (simp add: float_exponent_def)
qed

lemma float_exponent_mono:
  assumes "x \<noteq> 0" and "\<bar>x\<bar> \<le> \<bar>y\<bar>"
  shows "float_exponent emin x \<le> float_exponent emin y"
proof -
  have "log 2 \<bar>x\<bar> \<le> log 2 \<bar>y\<bar>"
    using assms by (intro log_mono) simp_all
  then have "\<lfloor>log 2 \<bar>x\<bar>\<rfloor> \<le> \<lfloor>log 2 \<bar>y\<bar>\<rfloor>" by (rule floor_mono)
  then show ?thesis by (simp add: float_exponent_def)
qed

subsection \<open>Rounding to the format\<close>

lemma round_float_0 [simp]: "round_float p emin 0 = 0"
  by (simp add: round_float_def)

lemma round_float_unfold:
  assumes "x \<noteq> 0"
  shows "round_float p emin x =
    real_of_int (round_half_even (x / 2 powi (float_exponent emin x - int p + 1)))
      * 2 powi (float_exponent emin x - int p + 1)"
  using assms by (simp add: round_float_def Let_def)

lemma round_float_minus: "round_float p emin (- x) = - round_float p emin x"
  by (cases "x = 0") (simp_all add: round_float_unfold float_exponent_minus round_half_even_minus)

lemma round_float_error_ulp:
  "\<bar>round_float p emin x - x\<bar> \<le> 2 powi (float_exponent emin x - int p)"
proof (cases "x = 0")
  case True
  then show ?thesis by simp
next
  case False
  define u :: real where "u = 2 powi (float_exponent emin x - int p + 1)"
  have u: "0 < u" by (simp add: u_def)
  have half: "u / 2 = 2 powi (float_exponent emin x - int p)"
    unfolding u_def by (simp add: power_int_add)
  have "round_float p emin x = real_of_int (round_half_even (x / u)) * u"
    unfolding round_float_unfold [OF False] u_def ..
  then have "round_float p emin x - x = (real_of_int (round_half_even (x / u)) - x / u) * u"
    using u by (simp add: field_simps)
  then have "\<bar>round_float p emin x - x\<bar> = \<bar>real_of_int (round_half_even (x / u)) - x / u\<bar> * u"
    using u by (simp add: abs_mult)
  also have "\<dots> \<le> 1 / 2 * u"
    using u round_half_even_error [of "x / u"] by (intro mult_right_mono) simp_all
  finally show ?thesis using half by simp
qed

lemma round_float_error:
  "\<bar>round_float p emin x - x\<bar> \<le> 2 powi (- int p) * max \<bar>x\<bar> (2 powi emin)"
proof (cases "x = 0")
  case True
  then show ?thesis by simp
next
  case False
  have e: "2 powi (float_exponent emin x) \<le> max \<bar>x\<bar> (2 powi emin)"
  proof (cases "2 powi emin \<le> \<bar>x\<bar>")
    case True
    then show ?thesis using float_exponent_normal(2) [OF False True] by simp
  next
    case False
    then have "float_exponent emin x = emin"
      using \<open>x \<noteq> 0\<close> by (intro float_exponent_subnormal) simp_all
    then show ?thesis by simp
  qed
  have "(2::real) powi (float_exponent emin x - int p)
      = 2 powi (- int p) * 2 powi (float_exponent emin x)"
    by (simp add: power_int_diff power_int_minus field_simps)
  also have "\<dots> \<le> 2 powi (- int p) * max \<bar>x\<bar> (2 powi emin)"
    using e by (intro mult_left_mono) simp_all
  finally show ?thesis
    using round_float_error_ulp [of p emin x] by linarith
qed

lemma round_float_nonneg:
  assumes "0 \<le> x"
  shows "0 \<le> round_float p emin x"
proof (cases "x = 0")
  case True
  then show ?thesis by simp
next
  case False
  have "0 \<le> x / 2 powi (float_exponent emin x - int p + 1)"
    using assms by simp
  then have "0 \<le> round_half_even (x / 2 powi (float_exponent emin x - int p + 1))"
    using round_half_even_ge [of 0] by simp
  then show ?thesis
    by (simp add: round_float_unfold [OF False])
qed

lemma round_float_upper:
  assumes "0 < x"
  shows "round_float p emin x \<le> 2 powi (float_exponent emin x + 1)"
proof -
  define e where "e = float_exponent emin x"
  define u :: real where "u = 2 powi (e - int p + 1)"
  have u: "0 < u" by (simp add: u_def)
  have x0: "x \<noteq> 0" using assms by simp
  have top: "2 powi (e + 1) = real_of_int (2 ^ p) * u"
  proof -
    have "(2::real) powi (e + 1) = 2 powi (int p + (e - int p + 1))" by simp
    also have "\<dots> = 2 powi (int p) * 2 powi (e - int p + 1)"
      by (rule power_int_add) simp
    finally show ?thesis by (simp add: u_def)
  qed
  have "x < 2 powi (e + 1)"
    using float_exponent_upper [OF x0, of emin] assms by (simp add: e_def)
  then have "x / u \<le> real_of_int (2 ^ p)"
    using u unfolding top by (simp add: field_simps)
  then have "round_half_even (x / u) \<le> 2 ^ p" by (rule round_half_even_le)
  then have "real_of_int (round_half_even (x / u)) \<le> real_of_int (2 ^ p)"
    by (simp only: of_int_le_iff)
  then have "real_of_int (round_half_even (x / u)) * u \<le> real_of_int (2 ^ p) * u"
    using u by (intro mult_right_mono) simp_all
  then show ?thesis
    unfolding round_float_unfold [OF x0] e_def [symmetric] u_def [symmetric] top .
qed

lemma round_float_lower:
  assumes "0 < x" and "2 powi (float_exponent emin x) \<le> x" and "0 < p"
  shows "2 powi (float_exponent emin x) \<le> round_float p emin x"
proof -
  define e where "e = float_exponent emin x"
  define u :: real where "u = 2 powi (e - int p + 1)"
  have u: "0 < u" by (simp add: u_def)
  have x0: "x \<noteq> 0" using assms by simp
  have bot: "2 powi e = real_of_int (2 ^ (p - 1)) * u"
  proof -
    have "(2::real) powi e = 2 powi (int (p - 1) + (e - int p + 1))"
      using assms(3) by simp
    also have "\<dots> = 2 powi (int (p - 1)) * 2 powi (e - int p + 1)"
      by (rule power_int_add) simp
    finally show ?thesis by (simp add: u_def)
  qed
  have "real_of_int (2 ^ (p - 1)) \<le> x / u"
    using u assms(2) unfolding e_def [symmetric] bot by (simp add: field_simps)
  then have "2 ^ (p - 1) \<le> round_half_even (x / u)" by (rule round_half_even_ge)
  then have "real_of_int (2 ^ (p - 1)) \<le> real_of_int (round_half_even (x / u))"
    by (simp only: of_int_le_iff)
  then have "real_of_int (2 ^ (p - 1)) * u \<le> real_of_int (round_half_even (x / u)) * u"
    using u by (intro mult_right_mono) simp_all
  then show ?thesis
    unfolding round_float_unfold [OF x0] e_def [symmetric] u_def [symmetric] bot .
qed


lemma round_float_mono_pos:
  assumes "0 < x" and "x \<le> y" and "0 < p"
  shows "round_float p emin x \<le> round_float p emin y"
proof -
  have x0: "x \<noteq> 0" and y0: "y \<noteq> 0" and ypos: "0 < y" using assms by simp_all
  have le: "float_exponent emin x \<le> float_exponent emin y"
    using assms by (intro float_exponent_mono) simp_all
  show ?thesis
  proof (cases "float_exponent emin x = float_exponent emin y")
    case True
    define u :: real where "u = 2 powi (float_exponent emin y - int p + 1)"
    have u: "0 < u" by (simp add: u_def)
    have "x / u \<le> y / u" using assms(2) u by (simp add: divide_right_mono)
    then have "round_half_even (x / u) \<le> round_half_even (y / u)"
      by (rule round_half_even_mono)
    then have "real_of_int (round_half_even (x / u)) * u \<le> real_of_int (round_half_even (y / u)) * u"
      using u by (intro mult_right_mono) simp_all
    then show ?thesis
      unfolding round_float_unfold [OF x0] round_float_unfold [OF y0] True u_def [symmetric] .
  next
    case False
    with le have lt: "float_exponent emin x + 1 \<le> float_exponent emin y" by simp
    have "emin < float_exponent emin y"
      using lt float_exponent_ge [of emin x] by simp
    then have "float_exponent emin y = \<lfloor>log 2 \<bar>y\<bar>\<rfloor>"
      by (simp add: float_exponent_def max_def split: if_splits)
    then have normal: "2 powi (float_exponent emin y) \<le> y"
      using floor_log2_bounds(1) [of "\<bar>y\<bar>"] ypos by simp
    have "round_float p emin x \<le> 2 powi (float_exponent emin x + 1)"
      using assms(1) by (rule round_float_upper)
    also have "\<dots> \<le> 2 powi (float_exponent emin y)"
      using lt by (intro power_int_increasing) simp_all
    also have "\<dots> \<le> round_float p emin y"
      using ypos normal assms(3) by (rule round_float_lower)
    finally show ?thesis .
  qed
qed

lemma round_float_mono:
  assumes "x \<le> y" and "0 < p"
  shows "round_float p emin x \<le> round_float p emin y"
proof -
  consider "0 < x" | "x \<le> 0" "0 \<le> y" | "y < 0" by linarith
  then show ?thesis
  proof cases
    case 1
    then show ?thesis using assms by (rule round_float_mono_pos)
  next
    case 2
    have "round_float p emin x \<le> 0"
      using round_float_nonneg [of "- x" p emin] 2(1) by (simp add: round_float_minus)
    moreover have "0 \<le> round_float p emin y"
      using 2(2) by (rule round_float_nonneg)
    ultimately show ?thesis by simp
  next
    case 3
    then have "0 < - y" and "- y \<le> - x" using assms(1) by simp_all
    then have "round_float p emin (- y) \<le> round_float p emin (- x)"
      using assms(2) by (rule round_float_mono_pos)
    then show ?thesis by (simp add: round_float_minus)
  qed
qed

lemma round_float_representable:
  assumes "\<bar>m\<bar> < 2 ^ p" and "emin - int p + 1 \<le> k"
  shows "round_float p emin (real_of_int m * 2 powi k) = real_of_int m * 2 powi k"
proof (cases "m = 0")
  case True
  then show ?thesis by simp
next
  case False
  define x :: real where "x = real_of_int m * 2 powi k"
  define e where "e = float_exponent emin x"
  have x0: "x \<noteq> 0" using False by (simp add: x_def)
  have absx: "\<bar>x\<bar> = real_of_int \<bar>m\<bar> * 2 powi k"
    by (simp add: x_def abs_mult)
  have ek: "e - int p + 1 \<le> k"
  proof (cases "2 powi emin \<le> \<bar>x\<bar>")
    case True
    have mp: "real_of_int \<bar>m\<bar> < real_of_int (2 ^ p)"
      using assms(1) by (simp only: of_int_less_iff)
    have "2 powi e \<le> \<bar>x\<bar>"
      unfolding e_def using x0 True by (rule float_exponent_normal)
    also have "\<dots> < real_of_int (2 ^ p) * 2 powi k"
      unfolding absx using mp by (intro mult_strict_right_mono) simp_all
    also have "\<dots> = 2 powi (int p + k)"
      by (simp add: power_int_add)
    finally have "(2::real) powi e < 2 powi (int p + k)" .
    then have "e < int p + k"
      by (smt (verit) power_int_increasing)
    then show ?thesis by simp
  next
    case False
    then have "e = emin"
      unfolding e_def using x0 by (intro float_exponent_subnormal) simp_all
    with assms(2) show ?thesis by simp
  qed
  define j where "j = nat (k - (e - int p + 1))"
  have k: "k = int j + (e - int p + 1)" using ek by (simp add: j_def)
  have pk: "(2::real) powi k = 2 ^ j * 2 powi (e - int p + 1)"
  proof -
    have "(2::real) powi k = 2 powi (int j) * 2 powi (e - int p + 1)"
      unfolding k by (rule power_int_add) simp
    then show ?thesis by simp
  qed
  have "x / 2 powi (e - int p + 1) = real_of_int (m * 2 ^ j)"
    by (simp add: x_def pk)
  then have "round_half_even (x / 2 powi (e - int p + 1)) = m * 2 ^ j"
    by (simp only: round_half_even_of_int)
  then have "round_float p emin x = real_of_int (m * 2 ^ j) * 2 powi (e - int p + 1)"
    unfolding round_float_unfold [OF x0] e_def [symmetric] by simp
  also have "\<dots> = x" by (simp add: x_def pk)
  finally show ?thesis by (simp add: x_def)
qed

lemma round_float_of_int:
  assumes "\<bar>n\<bar> \<le> 2 ^ p" and "emin - int p + 1 \<le> 0" and "0 < p"
  shows "round_float p emin (real_of_int n) = real_of_int n"
proof (cases "\<bar>n\<bar> < 2 ^ p")
  case True
  then show ?thesis
    using round_float_representable [of n p emin 0] assms(2) by simp
next
  case False
  with assms(1) have n: "\<bar>n\<bar> = 2 ^ p" by simp
  have pp: "(2::int) ^ p = 2 ^ (p - 1) * 2"
    using assms(3) by (cases p) simp_all
  define m where "m = sgn n * 2 ^ (p - 1)"
  have nm: "n = m * 2"
    using n unfolding m_def pp by (cases "0 \<le> n") (simp_all add: sgn_if)
  have "\<bar>m\<bar> < 2 ^ p"
    using n unfolding m_def pp by (simp add: abs_mult sgn_if)
  then have "round_float p emin (real_of_int m * 2 powi 1) = real_of_int m * 2 powi 1"
    using assms(2) by (intro round_float_representable) simp_all
  then show ?thesis by (simp add: nm)
qed

lemma round_float_eval:
  assumes "x \<noteq> 0" and "emin \<le> e" and "2 powi e \<le> \<bar>x\<bar>" and "\<bar>x\<bar> < 2 powi (e + 1)"
  shows "round_float p emin x =
    real_of_int (round_half_even (x / 2 powi (e - int p + 1))) * 2 powi (e - int p + 1)"
  unfolding round_float_unfold [OF assms(1)] float_exponent_eqI [OF assms] ..

section \<open>Properties of the scaled floating-point writers\<close>

lemma truncate_real_error: "\<bar>real_of_int (truncate_real x) - x\<bar> < 1"
  unfolding truncate_real_def by (simp; linarith)

lemma truncate_real_toward_zero: "\<bar>real_of_int (truncate_real x)\<bar> \<le> \<bar>x\<bar>"
  unfolding truncate_real_def by (simp; linarith)

lemma truncate_real_minus: "truncate_real (- x) = - truncate_real x"
  unfolding truncate_real_def by (auto simp: ceiling_def)

lemma round_binary32_mono: "x \<le> y \<Longrightarrow> round_binary32 x \<le> round_binary32 y"
  unfolding round_binary32_def by (rule round_float_mono) simp_all

lemma round_binary32_minus: "round_binary32 (- x) = - round_binary32 x"
  unfolding round_binary32_def by (rule round_float_minus)

lemma round_binary32_of_int:
  "\<bar>n\<bar> \<le> 2 ^ 24 \<Longrightarrow> round_binary32 (real_of_int n) = real_of_int n"
  unfolding round_binary32_def by (rule round_float_of_int) simp_all

lemma round_binary32_error:
  "\<bar>round_binary32 x - x\<bar> \<le> max \<bar>x\<bar> (2 powi (- 126)) / 2 ^ 24"
  using round_float_error [of 24 "- 126" x] by (simp add: round_binary32_def)

lemma round_binary32_eval:
  assumes "x \<noteq> 0" and "- 126 \<le> e" and "2 powi e \<le> \<bar>x\<bar>" and "\<bar>x\<bar> < 2 powi (e + 1)"
  shows "round_binary32 x =
    real_of_int (round_half_even (x / 2 powi (e - 23))) * 2 powi (e - 23)"
  using round_float_eval [OF assms, of 24] by (simp add: round_binary32_def)

lemma truncate_round_binary32_small_nonneg:
  assumes "0 \<le> x" and "x \<le> 2 ^ 24"
  shows "\<bar>real_of_int (truncate_real (round_binary32 x)) - x\<bar> < 1"
proof -
  define y where "y = round_binary32 x"
  define t where "t = \<lfloor>y\<rfloor>"
  have y0: "0 \<le> y"
    unfolding y_def round_binary32_def using assms(1) by (rule round_float_nonneg)
  then have tr: "truncate_real y = t" by (simp add: truncate_real_def t_def)
  have t0: "0 \<le> t" using y0 by (simp add: t_def)
  have ty: "real_of_int t \<le> y" by (simp add: t_def)
  have ytop: "y \<le> 2 ^ 24"
  proof -
    have "y \<le> round_binary32 (real_of_int (2 ^ 24))"
      unfolding y_def using assms(2) by (intro round_binary32_mono) simp
    also have "\<dots> = real_of_int (2 ^ 24)" by (rule round_binary32_of_int) simp
    finally show ?thesis by simp
  qed
  have upper: "x < real_of_int t + 1"
  proof (rule ccontr)
    assume "\<not> x < real_of_int t + 1"
    then have le: "real_of_int (t + 1) \<le> x" by simp
    with assms(2) have "real_of_int (t + 1) \<le> real_of_int (2 ^ 24)" by simp
    then have "t + 1 \<le> 2 ^ 24" by (simp only: of_int_le_iff)
    with t0 have "\<bar>t + 1\<bar> \<le> 2 ^ 24" by simp
    then have "round_binary32 (real_of_int (t + 1)) = real_of_int (t + 1)"
      by (rule round_binary32_of_int)
    with round_binary32_mono [OF le] have "real_of_int (t + 1) \<le> y" by (simp add: y_def)
    then have "t + 1 \<le> \<lfloor>y\<rfloor>" by (simp only: le_floor_iff)
    then show False by (simp add: t_def)
  qed
  have lower: "real_of_int t - 1 < x"
  proof (rule ccontr)
    assume "\<not> real_of_int t - 1 < x"
    then have le: "x \<le> real_of_int (t - 1)" by simp
    with assms(1) have "0 \<le> real_of_int (t - 1)" by linarith
    then have tm0: "0 \<le> t - 1" by (simp only: of_int_0_le_iff)
    from ty ytop have "real_of_int t \<le> real_of_int (2 ^ 24)" by simp
    then have "t \<le> 2 ^ 24" by (simp only: of_int_le_iff)
    with tm0 have "\<bar>t - 1\<bar> \<le> 2 ^ 24" by simp
    then have "round_binary32 (real_of_int (t - 1)) = real_of_int (t - 1)"
      by (rule round_binary32_of_int)
    with round_binary32_mono [OF le] have "y \<le> real_of_int (t - 1)" by (simp add: y_def)
    with ty show False by simp
  qed
  from upper lower show ?thesis
    unfolding y_def [symmetric] tr by linarith
qed

lemma truncate_round_binary32_small:
  assumes "\<bar>x\<bar> \<le> 2 ^ 24"
  shows "\<bar>real_of_int (truncate_real (round_binary32 x)) - x\<bar> < 1"
proof (cases "0 \<le> x")
  case True
  with assms show ?thesis by (intro truncate_round_binary32_small_nonneg) simp_all
next
  case False
  then have "0 \<le> - x" and "- x \<le> 2 ^ 24" using assms by simp_all
  then have "\<bar>real_of_int (truncate_real (round_binary32 (- x))) - (- x)\<bar> < 1"
    by (rule truncate_round_binary32_small_nonneg)
  then show ?thesis
    by (simp add: round_binary32_minus truncate_real_minus)
qed

lemma truncate_round_binary32_in_range:
  assumes "- (2 ^ 24) < truncate_real (round_binary32 x)"
    and "truncate_real (round_binary32 x) < 2 ^ 24"
  shows "\<bar>x\<bar> \<le> 2 ^ 24"
proof (rule ccontr)
  assume "\<not> \<bar>x\<bar> \<le> 2 ^ 24"
  then consider "2 ^ 24 < x" | "x < - (2 ^ 24)" by linarith
  then show False
  proof cases
    case 1
    then have "round_binary32 (real_of_int (2 ^ 24)) \<le> round_binary32 x"
      by (intro round_binary32_mono) simp
    moreover have "round_binary32 (real_of_int (2 ^ 24)) = real_of_int (2 ^ 24)"
      by (rule round_binary32_of_int) simp
    ultimately have "real_of_int (2 ^ 24) \<le> round_binary32 x" by simp
    then have "2 ^ 24 \<le> truncate_real (round_binary32 x)"
      by (simp add: truncate_real_def le_floor_iff)
    with assms(2) show False by simp
  next
    case 2
    then have "round_binary32 x \<le> round_binary32 (real_of_int (- (2 ^ 24)))"
      by (intro round_binary32_mono) simp
    moreover have "round_binary32 (real_of_int (- (2 ^ 24))) = real_of_int (- (2 ^ 24))"
      by (rule round_binary32_of_int) simp
    ultimately have "round_binary32 x \<le> real_of_int (- (2 ^ 24))" by simp
    then have "truncate_real (round_binary32 x) \<le> - (2 ^ 24)"
      by (simp add: truncate_real_def ceiling_le_iff)
    with assms(1) show False by simp
  qed
qed

lemma truncate_round_binary32_general:
  "\<bar>real_of_int (truncate_real (round_binary32 x)) - x\<bar> < 1 + \<bar>x\<bar> / 2 ^ 24"
proof (cases "\<bar>x\<bar> \<le> 2 ^ 24")
  case True
  then have "\<bar>real_of_int (truncate_real (round_binary32 x)) - x\<bar> < 1"
    by (rule truncate_round_binary32_small)
  moreover have "0 \<le> \<bar>x\<bar> / 2 ^ 24" by simp
  ultimately show ?thesis by linarith
next
  case False
  then have big: "2 ^ 24 < \<bar>x\<bar>" by simp
  have "(2::real) powi (- 126) \<le> 1" by (simp add: power_int_minus field_simps)
  with big have "max \<bar>x\<bar> (2 powi (- 126)) = \<bar>x\<bar>" by simp
  with round_binary32_error [of x] have "\<bar>round_binary32 x - x\<bar> \<le> \<bar>x\<bar> / 2 ^ 24" by simp
  with truncate_real_error [of "round_binary32 x"] show ?thesis by linarith
qed

lemma scaled_bound:
  fixes s d v c :: real
  assumes "s \<noteq> 0" and "\<bar>d - v * s\<bar> < c"
  shows "\<bar>d / s - v\<bar> < c / \<bar>s\<bar>"
proof -
  have "d / s - v = (d - v * s) / s"
    using assms(1) by (simp add: diff_divide_distrib)
  then have "\<bar>d / s - v\<bar> = \<bar>d - v * s\<bar> / \<bar>s\<bar>"
    by simp
  also have "\<dots> < c / \<bar>s\<bar>"
    using assms by (simp add: divide_strict_right_mono)
  finally show ?thesis .
qed

lemma read_be16_BufAppendInt16:
  "read_be16 (fst (BufAppendInt16 b n i)) i = n"
  unfolding read_be16_def by (rule BufAppendInt16_roundtrip)

lemma read_be32_BufAppendInt32:
  "read_be32 (fst (BufAppendInt32 b n i)) i = n"
  unfolding read_be32_def by (rule BufAppendInt32_roundtrip)

lemma BufAppendFloat16_in_range:
  assumes "- (2 ^ 15) \<le> truncate_real (round_binary32 (v * s))"
    and "truncate_real (round_binary32 (v * s)) < 2 ^ 15"
  shows "BufAppendFloat16 b v s i
         = Inr (BufAppendInt16 b (word_of_int (truncate_real (round_binary32 (v * s)))) i)"
  using assms by (simp add: BufAppendFloat16_def float_to_int16_def)

lemma BufAppendFloat32_in_range:
  assumes "- (2 ^ 31) \<le> truncate_real (round_binary32 (v * s))"
    and "truncate_real (round_binary32 (v * s)) < 2 ^ 31"
  shows "BufAppendFloat32 b v s i
         = Inr (BufAppendInt32 b (word_of_int (truncate_real (round_binary32 (v * s)))) i)"
  using assms by (simp add: BufAppendFloat32_def float_to_int32_def)

lemma BufAppendFloat16_stored:
  assumes "- (2 ^ 15) \<le> truncate_real (round_binary32 (v * s))"
    and "truncate_real (round_binary32 (v * s)) < 2 ^ 15"
  shows "case BufAppendFloat16 b v s i of
           Inl e \<Rightarrow> False
         | Inr (b', i') \<Rightarrow>
             i' = i + 2
             \<and> sint (read_be16 b' i) = truncate_real (round_binary32 (v * s))
             \<and> \<bar>real_of_int (sint (read_be16 b' i))\<bar> \<le> \<bar>round_binary32 (v * s)\<bar>
             \<and> \<bar>real_of_int (sint (read_be16 b' i)) - round_binary32 (v * s)\<bar> < 1
             \<and> \<bar>real_of_int (sint (read_be16 b' i)) - v * s\<bar> < 1
             \<and> (s \<noteq> 0 \<longrightarrow> \<bar>real_of_int (sint (read_be16 b' i)) / s - v\<bar> < 1 / \<bar>s\<bar>)"
proof -
  define t where "t = truncate_real (round_binary32 (v * s))"
  obtain b' i' where a: "BufAppendInt16 b (word_of_int t) i = (b', i')"
    by (cases "BufAppendInt16 b (word_of_int t) i")
  have r: "- (2 ^ 15) \<le> t" "t < 2 ^ 15"
    using assms by (simp_all add: t_def)
  have rd: "sint (read_be16 b' i) = t"
    using read_be16_BufAppendInt16 [of b "word_of_int t" i] r
    by (simp add: a sint16_of_int)
  have i': "i' = i + 2"
    using BufAppendInt16_cursor [of b "word_of_int t" i] by (simp add: a)
  have "\<bar>v * s\<bar> \<le> 2 ^ 24"
    using assms by (intro truncate_round_binary32_in_range) simp_all
  then have near: "\<bar>real_of_int t - v * s\<bar> < 1"
    unfolding t_def by (rule truncate_round_binary32_small)
  have scaled: "\<bar>real_of_int t / s - v\<bar> < 1 / \<bar>s\<bar>" if "s \<noteq> 0"
    using that near by (rule scaled_bound)
  show ?thesis
    unfolding BufAppendFloat16_in_range [OF assms] t_def [symmetric] a sum.case prod.case rd i'
    using truncate_real_toward_zero [of "round_binary32 (v * s)"]
      truncate_real_error [of "round_binary32 (v * s)"] near scaled
    unfolding t_def [symmetric]
    by blast
qed

lemma BufAppendFloat32_stored:
  assumes "- (2 ^ 31) \<le> truncate_real (round_binary32 (v * s))"
    and "truncate_real (round_binary32 (v * s)) < 2 ^ 31"
  shows "case BufAppendFloat32 b v s i of
           Inl e \<Rightarrow> False
         | Inr (b', i') \<Rightarrow>
             i' = i + 4
             \<and> sint (read_be32 b' i) = truncate_real (round_binary32 (v * s))
             \<and> \<bar>real_of_int (sint (read_be32 b' i))\<bar> \<le> \<bar>round_binary32 (v * s)\<bar>
             \<and> \<bar>real_of_int (sint (read_be32 b' i)) - round_binary32 (v * s)\<bar> < 1
             \<and> (\<bar>v * s\<bar> \<le> 2 ^ 24 \<longrightarrow>
                  \<bar>real_of_int (sint (read_be32 b' i)) - v * s\<bar> < 1
                  \<and> (s \<noteq> 0 \<longrightarrow> \<bar>real_of_int (sint (read_be32 b' i)) / s - v\<bar> < 1 / \<bar>s\<bar>))
             \<and> \<bar>real_of_int (sint (read_be32 b' i)) - v * s\<bar> < 1 + \<bar>v * s\<bar> / 2 ^ 24
             \<and> (s \<noteq> 0 \<longrightarrow>
                  \<bar>real_of_int (sint (read_be32 b' i)) / s - v\<bar>
                    < (1 + \<bar>v * s\<bar> / 2 ^ 24) / \<bar>s\<bar>)"
proof -
  define t where "t = truncate_real (round_binary32 (v * s))"
  obtain b' i' where a: "BufAppendInt32 b (word_of_int t) i = (b', i')"
    by (cases "BufAppendInt32 b (word_of_int t) i")
  have r: "- (2 ^ 31) \<le> t" "t < 2 ^ 31"
    using assms by (simp_all add: t_def)
  have rd: "sint (read_be32 b' i) = t"
    using read_be32_BufAppendInt32 [of b "word_of_int t" i] r
    by (simp add: a sint32_of_int)
  have i': "i' = i + 4"
    using BufAppendInt32_cursor [of b "word_of_int t" i] by (simp add: a)
  have near: "\<bar>real_of_int t - v * s\<bar> < 1" if "\<bar>v * s\<bar> \<le> 2 ^ 24"
    unfolding t_def using that by (rule truncate_round_binary32_small)
  have scaled: "\<bar>real_of_int t / s - v\<bar> < 1 / \<bar>s\<bar>" if "s \<noteq> 0" and "\<bar>v * s\<bar> \<le> 2 ^ 24"
    using that(1) near [OF that(2)] by (rule scaled_bound)
  have general: "\<bar>real_of_int t - v * s\<bar> < 1 + \<bar>v * s\<bar> / 2 ^ 24"
    unfolding t_def by (rule truncate_round_binary32_general)
  have general_scaled: "\<bar>real_of_int t / s - v\<bar> < (1 + \<bar>v * s\<bar> / 2 ^ 24) / \<bar>s\<bar>" if "s \<noteq> 0"
    using that general by (rule scaled_bound)
  show ?thesis
    unfolding BufAppendFloat32_in_range [OF assms] t_def [symmetric] a sum.case prod.case rd i'
    using truncate_real_toward_zero [of "round_binary32 (v * s)"]
      truncate_real_error [of "round_binary32 (v * s)"] near scaled general general_scaled
    unfolding t_def [symmetric]
    by blast
qed

text \<open>
  Claim C8, as the code has it. The product of the value and the scale is a \<^verbatim>\<open>float\<close>:
  the exact product rounded to binary32. When that product, with its fractional part
  discarded, fits a 16-bit signed integer, \<open>BufAppendFloat16\<close> is \<open>BufAppendInt16\<close> on
  that integer: it returns a buffer whose two bytes at the cursor decode, big-endian,
  to the \<^verbatim>\<open>float\<close> product rounded towards zero, and the cursor advanced by 2; the
  decoded integer is less than 1 away from the exact product, so for a non-zero scale
  the decoded integer divided by the scale is less than one unit \<open>1 / \<bar>scale\<bar>\<close> away
  from the value. \<open>BufAppendFloat32\<close> is \<open>BufAppendInt32\<close> on the truncated \<^verbatim>\<open>float\<close>
  product in the same way, with four bytes and the 32-bit range; its decoded integer is
  less than 1 away from the exact product when that is at most \<open>2 ^ 24\<close> in magnitude,
  and less than \<open>1 + \<bar>value * scale\<bar> / 2 ^ 24\<close> away from it in general: beyond 24 binary
  digits the rounding of the \<^verbatim>\<open>float\<close> product adds to the truncation.
\<close>

theorem BufAppendFloat_fixed_point:
  "(- (2 ^ 15) \<le> truncate_real (round_binary32 (v * s))
      \<and> truncate_real (round_binary32 (v * s)) < 2 ^ 15 \<longrightarrow>
      BufAppendFloat16 b v s i
        = Inr (BufAppendInt16 b (word_of_int (truncate_real (round_binary32 (v * s)))) i)
      \<and> (case BufAppendFloat16 b v s i of
           Inl e \<Rightarrow> False
         | Inr (b', i') \<Rightarrow>
             i' = i + 2
             \<and> sint (read_be16 b' i) = truncate_real (round_binary32 (v * s))
             \<and> \<bar>real_of_int (sint (read_be16 b' i))\<bar> \<le> \<bar>round_binary32 (v * s)\<bar>
             \<and> \<bar>real_of_int (sint (read_be16 b' i)) - round_binary32 (v * s)\<bar> < 1
             \<and> \<bar>real_of_int (sint (read_be16 b' i)) - v * s\<bar> < 1
             \<and> (s \<noteq> 0 \<longrightarrow> \<bar>real_of_int (sint (read_be16 b' i)) / s - v\<bar> < 1 / \<bar>s\<bar>)))
   \<and> (- (2 ^ 31) \<le> truncate_real (round_binary32 (v * s))
      \<and> truncate_real (round_binary32 (v * s)) < 2 ^ 31 \<longrightarrow>
      BufAppendFloat32 b v s i
        = Inr (BufAppendInt32 b (word_of_int (truncate_real (round_binary32 (v * s)))) i)
      \<and> (case BufAppendFloat32 b v s i of
           Inl e \<Rightarrow> False
         | Inr (b', i') \<Rightarrow>
             i' = i + 4
             \<and> sint (read_be32 b' i) = truncate_real (round_binary32 (v * s))
             \<and> \<bar>real_of_int (sint (read_be32 b' i))\<bar> \<le> \<bar>round_binary32 (v * s)\<bar>
             \<and> \<bar>real_of_int (sint (read_be32 b' i)) - round_binary32 (v * s)\<bar> < 1
             \<and> (\<bar>v * s\<bar> \<le> 2 ^ 24 \<longrightarrow>
                  \<bar>real_of_int (sint (read_be32 b' i)) - v * s\<bar> < 1
                  \<and> (s \<noteq> 0 \<longrightarrow> \<bar>real_of_int (sint (read_be32 b' i)) / s - v\<bar> < 1 / \<bar>s\<bar>))
             \<and> \<bar>real_of_int (sint (read_be32 b' i)) - v * s\<bar> < 1 + \<bar>v * s\<bar> / 2 ^ 24
             \<and> (s \<noteq> 0 \<longrightarrow>
                  \<bar>real_of_int (sint (read_be32 b' i)) / s - v\<bar>
                    < (1 + \<bar>v * s\<bar> / 2 ^ 24) / \<bar>s\<bar>)))"
  using BufAppendFloat16_in_range [where v = v and s = s and b = b and i = i]
    BufAppendFloat16_stored [where v = v and s = s and b = b and i = i]
    BufAppendFloat32_in_range [where v = v and s = s and b = b and i = i]
    BufAppendFloat32_stored [where v = v and s = s and b = b and i = i]
  by blast

theorem BufAppendFloat_fixed_point_witness:
  "round_binary32 (- 5 / 4 * (201 / 2)) = - 1005 / 8
   \<and> (case BufAppendFloat16 (\<lambda>_. 0) (- 5 / 4) (201 / 2) 0 of
        Inl e \<Rightarrow> False
      | Inr (b', i') \<Rightarrow>
          i' = 2 \<and> map b' [0, 1] = [0xFF, 0x83] \<and> sint (read_be16 b' 0) = - 125)
   \<and> round_binary32 (3 / 2 * 100000) = 150000
   \<and> (case BufAppendFloat32 (\<lambda>_. 0) (3 / 2) 100000 0 of
        Inl e \<Rightarrow> False
      | Inr (b', i') \<Rightarrow>
          i' = 4 \<and> map b' [0, 1, 2, 3] = [0x00, 0x02, 0x49, 0xF0]
          \<and> sint (read_be32 b' 0) = 150000)"
proof -
  have p16: "round_binary32 (- 5 / 4 * (201 / 2)) = - 1005 / 8"
    by (subst round_binary32_eval [where e = 6]) (simp_all add: round_half_even_def)
  have p32: "round_binary32 (3 / 2 * 100000) = 150000"
    by (subst round_binary32_eval [where e = 17]) (simp_all add: round_half_even_def)
  have t16: "truncate_real (- 1005 / 8) = - 125"
    by (simp add: truncate_real_def)
  have t32: "truncate_real 150000 = 150000"
    by (simp add: truncate_real_def)
  show ?thesis
    using BufAppendFloat_fixed_point [of "- 5 / 4" "201 / 2" "\<lambda>_. 0" 0]
      BufAppendFloat_fixed_point [of "3 / 2" 100000 "\<lambda>_. 0" 0]
    unfolding p16 p32 t16 t32
    by (simp add: BufAppendInt16_result BufAppendInt32_result
        read_be16_def decode_be16_def read_be32_def decode_be32_def)
qed

text \<open>
  Claim C8, as it is stated, has the 32-bit writer recover the value to within one unit
  of the scale whenever the scaled value fits the integer. The \<^verbatim>\<open>float\<close> 20000.001
  (\<open>10240001 / 512\<close>) with the scale 100000 has the exact product 2000000195.3125, which
  fits a 32-bit integer; the \<^verbatim>\<open>float\<close> product is 2000000256, so that is what is stored
  and read back: more than 60 units away.
\<close>

theorem BufAppendFloat32_rounding_counterexample:
  "round_binary32 (10240001 / 512) = 10240001 / 512
   \<and> round_binary32 100000 = 100000
   \<and> truncate_real (10240001 / 512 * 100000) = 2000000195
   \<and> round_binary32 (10240001 / 512 * 100000) = 2000000256
   \<and> (case BufAppendFloat32 (\<lambda>_. 0) (10240001 / 512) 100000 0 of
        Inl e \<Rightarrow> False
      | Inr (b', i') \<Rightarrow>
          i' = 4 \<and> map b' [0, 1, 2, 3] = [0x77, 0x35, 0x95, 0x00]
          \<and> sint (read_be32 b' 0) = 2000000256
          \<and> \<not> \<bar>real_of_int (sint (read_be32 b' 0)) - 10240001 / 512 * 100000\<bar> < 1
          \<and> \<not> \<bar>real_of_int (sint (read_be32 b' 0)) / 100000 - 10240001 / 512\<bar>
                < 1 / \<bar>100000\<bar>)"
proof -
  have v: "round_binary32 (10240001 / 512) = 10240001 / 512"
    by (subst round_binary32_eval [where e = 14]) (simp_all add: round_half_even_def)
  have s: "round_binary32 100000 = 100000"
    by (subst round_binary32_eval [where e = 16]) (simp_all add: round_half_even_def)
  have p: "round_binary32 (10240001 / 512 * 100000) = 2000000256"
    by (subst round_binary32_eval [where e = 30]) (simp_all add: round_half_even_def)
  have t: "truncate_real (10240001 / 512 * 100000) = 2000000195"
    by (simp add: truncate_real_def)
  have st: "BufAppendFloat32 (\<lambda>_. 0) (10240001 / 512) 100000 0
       = Inr (BufAppendInt32 (\<lambda>_. 0) 2000000256 0)"
    unfolding BufAppendFloat32_def float_to_int32_def p
    by (simp add: truncate_real_def)
  show ?thesis
    unfolding v s t p st
    by (simp add: BufAppendInt32_result read_be32_def decode_be32_def)
qed

section \<open>Properties of the container helpers\<close>

text \<open>
  Claim C6. For bounds with \<open>lo \<le> hi\<close>, \<open>Clamp v hi lo\<close> is \<open>lo\<close> when \<open>v < lo\<close>, \<open>hi\<close>
  when \<open>v > hi\<close> and \<open>v\<close> otherwise, and in each case it lies between \<open>lo\<close> and \<open>hi\<close>.
\<close>

theorem Clamp_bounds:
  fixes v lo hi :: "'a::linorder"
  assumes "lo \<le> hi"
  shows "Clamp v hi lo = (if v < lo then lo else if hi < v then hi else v)
         \<and> lo \<le> Clamp v hi lo \<and> Clamp v hi lo \<le> hi"
  using assms by (auto simp: Clamp_def std_min_def std_max_def)

theorem Clamp_bounds_witness:
  "(0::int) \<le> 10 \<and> Clamp (15::int) 10 0 = 10 \<and> Clamp (- 3::int) 10 0 = 0
   \<and> Clamp (4::int) 10 0 = 4"
  using Clamp_bounds [of "0::int" 10 15] Clamp_bounds [of "0::int" 10 "- 3"]
    Clamp_bounds [of "0::int" 10 4]
  by simp

subsection \<open>The linear scan\<close>

lemma std_find_le: "std_find v x \<le> length v"
  by (induction v) auto

lemma std_find_absent: "std_find v x = length v \<longleftrightarrow> x \<notin> set v"
proof (induction v)
  case Nil
  then show ?case by simp
next
  case (Cons y ys)
  then show ?case using std_find_le [of ys x] by auto
qed

lemma std_find_first:
  "x \<in> set v \<Longrightarrow>
     std_find v x < length v \<and> v ! std_find v x = x \<and> (\<forall>j < std_find v x. v ! j \<noteq> x)"
proof (induction v)
  case Nil
  then show ?case by simp
next
  case (Cons y ys)
  show ?case
  proof (cases "y = x")
    case True
    then show ?thesis by simp
  next
    case False
    with Cons have "std_find ys x < length ys \<and> ys ! std_find ys x = x
        \<and> (\<forall>j < std_find ys x. ys ! j \<noteq> x)"
      by simp
    with False show ?thesis by (auto simp: nth_Cons split: nat.splits)
  qed
qed

text \<open>
  Claim C7. \<open>VecContains v x\<close> holds exactly when \<open>VecIndexOf v x\<close> is not \<open>-1\<close>, and
  exactly when \<open>x\<close> is an element of \<open>v\<close>. \<open>VecIndexOf v x\<close> is \<open>-1\<close> when \<open>x\<close> is absent
  and otherwise the first index at which \<open>v\<close> holds \<open>x\<close>.
\<close>

theorem VecIndexOf_VecContains:
  "(VecContains v x \<longleftrightarrow> VecIndexOf v x \<noteq> - 1)
   \<and> (VecContains v x \<longleftrightarrow> x \<in> set v)
   \<and> (x \<notin> set v \<longrightarrow> VecIndexOf v x = - 1)
   \<and> (x \<in> set v \<longrightarrow>
        0 \<le> VecIndexOf v x \<and> VecIndexOf v x < int (length v)
        \<and> v ! nat (VecIndexOf v x) = x
        \<and> (\<forall>j < nat (VecIndexOf v x). v ! j \<noteq> x))"
proof -
  have c: "VecContains v x \<longleftrightarrow> x \<in> set v"
    by (simp add: VecContains_def std_find_absent)
  have a: "x \<notin> set v \<Longrightarrow> VecIndexOf v x = - 1"
    using std_find_absent [of v x] by (simp add: VecIndexOf_def)
  have p: "VecIndexOf v x = int (std_find v x)" if "x \<in> set v"
    using std_find_first [OF that] by (simp add: VecIndexOf_def)
  have f: "0 \<le> VecIndexOf v x \<and> VecIndexOf v x < int (length v)
        \<and> v ! nat (VecIndexOf v x) = x
        \<and> (\<forall>j < nat (VecIndexOf v x). v ! j \<noteq> x)" if "x \<in> set v"
    using std_find_first [OF that] by (simp add: p [OF that])
  have "VecContains v x \<longleftrightarrow> VecIndexOf v x \<noteq> - 1"
    using c a f by (cases "x \<in> set v") auto
  with c a f show ?thesis by blast
qed

theorem VecIndexOf_VecContains_witness:
  "VecContains [3, 1, 4, 1, 5 :: int] 1 \<and> VecIndexOf [3, 1, 4, 1, 5 :: int] 1 = 1
   \<and> \<not> VecContains [3, 1, 4, 1, 5 :: int] 9 \<and> VecIndexOf [3, 1, 4, 1, 5 :: int] 9 = - 1"
  using VecIndexOf_VecContains [of "[3, 1, 4, 1, 5 :: int]" 1]
    VecIndexOf_VecContains [of "[3, 1, 4, 1, 5 :: int]" 9]
  by (simp add: VecIndexOf_def)

section \<open>Properties of the string formatter\<close>

lemma int_size_succ:
  assumes "0 \<le> k" and "k < 2 ^ 31 - 1"
  shows "sint (word_of_int k + 1 :: 32 word) = k + 1"
proof -
  have "word_of_int k + 1 = (word_of_int (k + 1) :: 32 word)" by simp
  moreover have "sint (word_of_int (k + 1) :: 32 word) = k + 1"
    using assms by (intro sint32_of_int) simp_all
  ultimately show ?thesis by simp
qed

lemma snprintf_error:
  "F fmt args = None \<Longrightarrow> snprintf F n fmt args = (- 1, [])"
  by (simp add: snprintf_def)

lemma snprintf_too_long:
  "F fmt args = Some out \<Longrightarrow> 2 ^ 31 - 1 < int (length out) \<Longrightarrow>
     snprintf F n fmt args = (- 1, [])"
  by (simp add: snprintf_def)

lemma snprintf_ok:
  "F fmt args = Some out \<Longrightarrow> int (length out) \<le> 2 ^ 31 - 1 \<Longrightarrow>
     snprintf F n fmt args = (int (length out), take (n - 1) out)"
  by (simp add: snprintf_def)

lemma strfmt_error:
  assumes "fst (snprintf F 0 (c_str fmt) args) = - 1"
  shows "strfmt F fmt args = ''<StrFmt error>''"
  using assms by (simp add: strfmt_def)

lemma strfmt_ok:
  assumes "F (c_str fmt) args = Some out" and "int (length out) < 2 ^ 31 - 1"
  shows "strfmt F fmt args = out"
proof -
  have r: "snprintf F n (c_str fmt) args = (int (length out), take (n - 1) out)" for n
    using assms by (simp add: snprintf_ok)
  have size: "sint (word_of_int (int (length out)) + 1 :: 32 word) = int (length out) + 1"
    using assms(2) by (intro int_size_succ) simp_all
  show ?thesis
    unfolding strfmt_def Let_def r fst_conv snd_conv size by simp
qed

text \<open>
  Claim C9. When the system formatter reports an error for the format and the
  converted arguments (also when the text would be longer than an \<open>int\<close> can count),
  \<open>StrFmt\<close> returns the literal text \<open><StrFmt error>\<close>: the result is a plain string and
  no error reaches the caller. When the formatter succeeds with a text whose length
  plus one fits an \<open>int\<close>, \<open>StrFmt\<close> returns that text.
\<close>

theorem StrFmt_error_sentinel:
  "(F (c_str fmt) (map convert args) = None \<longrightarrow> StrFmt F fmt args = ''<StrFmt error>'')
   \<and> (\<forall>out. F (c_str fmt) (map convert args) = Some out \<and> 2 ^ 31 - 1 < int (length out)
        \<longrightarrow> StrFmt F fmt args = ''<StrFmt error>'')
   \<and> (\<forall>out. F (c_str fmt) (map convert args) = Some out \<and> int (length out) < 2 ^ 31 - 1
        \<longrightarrow> StrFmt F fmt args = out)"
  by (auto simp: StrFmt_def snprintf_error snprintf_too_long intro: strfmt_error strfmt_ok)

theorem StrFmt_error_sentinel_witness:
  "StrFmt (\<lambda>fmt args. if args = [] then None else Some (fmt @ ''!'')) ''id''
       ([] :: nat fmt_arg list)
     = ''<StrFmt error>''
   \<and> StrFmt (\<lambda>fmt args. if args = [] then None else Some (fmt @ ''!'')) ''id''
       [StdString ''a'', Other (3::nat)]
     = ''id!''"
  using StrFmt_error_sentinel [of "\<lambda>fmt args. if args = [] then None else Some (fmt @ ''!'')"
      "''id''" "[] :: nat fmt_arg list"]
    StrFmt_error_sentinel [of "\<lambda>fmt args. if args = [] then None else Some (fmt @ ''!'')"
      "''id''" "[StdString ''a'', Other (3::nat)]"]
  by (simp add: c_str_def)

section \<open>Properties of the rate scheduler\<close>

lemma narrow_int_id: "0 \<le> c \<Longrightarrow> c < 2 ^ 31 \<Longrightarrow> narrow_int c = c"
  unfolding narrow_int_def by (rule sint32_of_int) simp_all

lemma cdiv_1000_pos: "0 < rate \<Longrightarrow> cdiv 1000 rate = 1000 div rate"
  by (simp add: cdiv_def)

lemma period_real:
  assumes "0 < rate"
  shows "real_of_int (1000 div rate) \<le> 1000 / real_of_int rate"
    and "1000 / real_of_int rate \<le> 1000"
proof -
  have "\<lfloor>real_of_int 1000 / real_of_int rate\<rfloor> = 1000 div rate"
    by (rule floor_divide_of_int_eq)
  then have "real_of_int (1000 div rate) = real_of_int \<lfloor>1000 / real_of_int rate\<rfloor>"
    by simp
  then show "real_of_int (1000 div rate) \<le> 1000 / real_of_int rate"
    by (simp only: of_int_floor_le)
  have "1 \<le> real_of_int rate" using assms by simp
  then show "1000 / real_of_int rate \<le> 1000"
    by (simp add: field_simps)
qed

lemma period_real_upper:
  assumes "rate \<noteq> 0"
  shows "real_of_int (cdiv 1000 rate) < 1000 / real_of_int rate + 1"
proof (cases "0 < rate")
  case True
  then show ?thesis
    using period_real(1) [of rate] by (simp add: cdiv_1000_pos)
next
  case False
  with assms have neg: "rate < 0" by simp
  have c: "cdiv 1000 rate = - (1000 div (- rate))"
    using neg by (simp add: cdiv_def)
  have "\<lfloor>real_of_int 1000 / real_of_int (- rate)\<rfloor> = 1000 div (- rate)"
    by (rule floor_divide_of_int_eq)
  then have "real_of_int (1000 div (- rate)) = real_of_int \<lfloor>1000 / real_of_int (- rate)\<rfloor>"
    by simp
  moreover have "1000 / real_of_int (- rate) - 1 < real_of_int \<lfloor>1000 / real_of_int (- rate)\<rfloor>"
    by linarith
  ultimately have "1000 / real_of_int (- rate) - 1 < real_of_int (1000 div (- rate))"
    by simp
  then show ?thesis unfolding c by simp
qed

lemma quotient_le_1000:
  assumes "rate \<noteq> 0"
  shows "1000 / real_of_int rate \<le> 1000"
proof (cases "0 < rate")
  case True
  then show ?thesis by (rule period_real(2))
next
  case False
  with assms have "real_of_int rate < 0" by simp
  then have "1000 / real_of_int rate < 0" by (simp add: divide_pos_neg)
  then show ?thesis by linarith
qed

lemma truncate_real_above: "- 2 < x \<Longrightarrow> - 1 \<le> truncate_real x"
proof (cases "0 \<le> x")
  case True
  then show ?thesis by (simp add: truncate_real_def le_floor_iff)
next
  case False
  assume "- 2 < x"
  then have "- 1 \<le> \<lceil>x\<rceil>" by (simp add: le_ceiling_iff)
  with False show ?thesis by (simp add: truncate_real_def)
qed

lemma sleep_budget_lower:
  assumes "rate \<noteq> 0" and "dt < cdiv 1000 rate"
  shows "- 1 \<le> sleep_budget rate dt"
proof -
  have "real_of_int dt \<le> real_of_int (cdiv 1000 rate) - 1"
    using assms(2) by (metis of_int_1 of_int_diff of_int_le_iff zle_diff1_eq)
  with period_real_upper [OF assms(1)]
  have "- 2 < 1000 / real_of_int rate - real_of_int dt - 2" by simp
  then have "- 1 \<le> truncate_real (1000 / real_of_int rate - real_of_int dt - 2)"
    by (rule truncate_real_above)
  then show ?thesis by (simp only: sleep_budget_def)
qed

lemma sleep_budget_upper:
  assumes "rate \<noteq> 0" and "0 \<le> dt"
  shows "sleep_budget rate dt \<le> 998"
proof -
  have "1000 / real_of_int rate - real_of_int dt - 2 \<le> real_of_int 998"
    using quotient_le_1000 [OF assms(1)] assms(2) by simp
  moreover have "truncate_real x \<le> 998" if "x \<le> real_of_int 998" for x
    using that unfolding truncate_real_def
    by (auto simp: floor_le_iff ceiling_le_iff)
  ultimately show ?thesis unfolding sleep_budget_def by blast
qed

lemma float_to_int_sleep_budget:
  assumes "rate \<noteq> 0" and "dt < cdiv 1000 rate" and "sleep_budget rate dt < 2 ^ 31"
  shows "float_to_int (1000 / real_of_int rate - real_of_int dt - 2) = Inr (sleep_budget rate dt)"
  using sleep_budget_lower [OF assms(1,2)] assms(3)
  by (simp add: float_to_int_def sleep_budget_def [symmetric])

lemma ScheduleRate_late:
  assumes "rate \<noteq> 0" and "cdiv 1000 rate \<le> measured_ms w start_time"
  shows "ScheduleRate rate start_time w
         = Inr (real_of_int (measured_ms w start_time) / 1000, w\<lparr>queries := queries w + 1\<rparr>)"
  using assms
  by (simp add: ScheduleRate_def clock_now_def measured_ms_def elapsed_ms_def Let_def)

lemma ScheduleRate_on_time:
  assumes "rate \<noteq> 0" and "measured_ms w start_time < cdiv 1000 rate"
    and "sleep_budget rate (measured_ms w start_time) < 2 ^ 31"
  shows "ScheduleRate rate start_time w
         = Inr (real_of_int (elapsed_ms w start_time (queries w + 1)) / 1000,
                w\<lparr>queries := queries w + 2,
                  sleeps := sleeps w @ [sleep_budget rate (measured_ms w start_time)]\<rparr>)"
proof -
  have dt: "narrow_int (duration_cast_ms (ticks w (queries w) - start_time))
      = measured_ms w start_time"
    by (simp add: measured_ms_def elapsed_ms_def)
  have e2: "duration_cast_ms (ticks w (Suc (queries w)) - start_time)
      = elapsed_ms w start_time (queries w + 1)"
    by (simp add: elapsed_ms_def)
  show ?thesis
    using assms(1,2)
    by (simp add: ScheduleRate_def clock_now_def sleep_for_def Let_def dt e2
        float_to_int_sleep_budget [OF assms])
qed

lemma measured_ms_exact:
  assumes "0 \<le> elapsed_ms w start_time (queries w)"
    and "elapsed_ms w start_time (queries w) < 2 ^ 31"
  shows "measured_ms w start_time = elapsed_ms w start_time (queries w)"
  unfolding measured_ms_def using assms by (rule narrow_int_id)

lemma ScheduleRate_rate_zero: "ScheduleRate 0 start_time w = Inl DivisionByZero"
  by (simp add: ScheduleRate_def clock_now_def Let_def)

text \<open>
  Claim C5. For a rate other than 0, with the elapsed milliseconds \<open>dt\<close> that the
  function measures at its first reading of the clock and the period \<open>1000 / rate\<close> in
  whole milliseconds: when \<open>dt\<close> is at least the period, \<open>ScheduleRate\<close> returns \<open>dt\<close> as
  seconds, having read the clock once and called no sleep; when \<open>dt\<close> is less than the
  period, it calls the sleep once, for \<open>1000 / rate\<close> less \<open>dt\<close> less 2 milliseconds (the
  fraction discarded, a duration that has to fit an \<open>int\<close>), then reads the clock again
  and returns the milliseconds elapsed at that second reading as seconds. When the
  milliseconds elapsed since the start time are not negative and fit an \<open>int\<close>, \<open>dt\<close> is
  those milliseconds and the duration of the sleep is at most 998.
\<close>

theorem ScheduleRate_paths:
  assumes "rate \<noteq> 0"
  shows "(cdiv 1000 rate \<le> measured_ms w start_time \<longrightarrow>
           ScheduleRate rate start_time w =
             Inr (real_of_int (measured_ms w start_time) / 1000,
                  w\<lparr>queries := queries w + 1\<rparr>))
       \<and> (measured_ms w start_time < cdiv 1000 rate
            \<and> sleep_budget rate (measured_ms w start_time) < 2 ^ 31 \<longrightarrow>
           ScheduleRate rate start_time w =
             Inr (real_of_int (elapsed_ms w start_time (queries w + 1)) / 1000,
                  w\<lparr>queries := queries w + 2,
                    sleeps := sleeps w @ [sleep_budget rate (measured_ms w start_time)]\<rparr>))
       \<and> (0 \<le> elapsed_ms w start_time (queries w)
            \<and> elapsed_ms w start_time (queries w) < 2 ^ 31 \<longrightarrow>
           measured_ms w start_time = elapsed_ms w start_time (queries w)
           \<and> sleep_budget rate (measured_ms w start_time) \<le> 998)"
  using ScheduleRate_late [OF assms, of w start_time]
    ScheduleRate_on_time [OF assms, of w start_time]
    measured_ms_exact [of w start_time]
    sleep_budget_upper [OF assms, of "measured_ms w start_time"]
  by auto

theorem ScheduleRate_paths_witness:
  "ScheduleRate 3 0
       \<lparr>ticks = (\<lambda>k. if k = 0 then 100000000 else 350000000), queries = 0, sleeps = []\<rparr>
     = Inr (7 / 20,
         \<lparr>ticks = (\<lambda>k. if k = 0 then 100000000 else 350000000), queries = 2,
            sleeps = [231]\<rparr>)
   \<and> ScheduleRate 3 0 \<lparr>ticks = (\<lambda>k. 400000000), queries = 0, sleeps = []\<rparr>
     = Inr (2 / 5, \<lparr>ticks = (\<lambda>k. 400000000), queries = 1, sleeps = []\<rparr>)"
  using
    ScheduleRate_paths [of 3
      "\<lparr>ticks = (\<lambda>k. if k = 0 then 100000000 else 350000000), queries = 0, sleeps = []\<rparr>" 0]
    ScheduleRate_paths [of 3 "\<lparr>ticks = (\<lambda>k. 400000000), queries = 0, sleeps = []\<rparr>" 0]
  by (simp add: measured_ms_def narrow_int_def sleep_budget_def elapsed_ms_def
      duration_cast_ms_def cdiv_def truncate_real_def)

section \<open>Bounds on \<open>\<pi>\<close>\<close>

lemma arctan_term_decreasing:
  fixes x :: real
  assumes "0 \<le> x" and "x \<le> 1"
  shows "1 / real (Suc n * 2 + 1) * x ^ (Suc n * 2 + 1) \<le> 1 / real (n * 2 + 1) * x ^ (n * 2 + 1)"
proof -
  have "x ^ (Suc n * 2 + 1) \<le> x ^ (n * 2 + 1)"
    using assms by (intro power_decreasing) simp_all
  moreover have "1 / real (Suc n * 2 + 1) \<le> 1 / real (n * 2 + 1)"
    by (intro divide_left_mono) simp_all
  moreover have "0 \<le> x ^ (Suc n * 2 + 1)" using assms by simp
  ultimately show ?thesis
    by (intro mult_mono) simp_all
qed

lemma arctan_partial_sums:
  fixes x :: real
  assumes "0 \<le> x" and "x \<le> 1"
  shows "(\<Sum>i<2 * n. (- 1) ^ i * (1 / real (i * 2 + 1) * x ^ (i * 2 + 1))) \<le> arctan x"
    and "arctan x \<le> (\<Sum>i<2 * n + 1. (- 1) ^ i * (1 / real (i * 2 + 1) * x ^ (i * 2 + 1)))"
proof -
  let ?a = "\<lambda>n. 1 / real (n * 2 + 1) * x ^ (n * 2 + 1)"
  have ax: "\<bar>x\<bar> \<le> 1" using assms by simp
  have z: "?a \<longlonglongrightarrow> 0"
    using ax by (rule zeroseq_arctan_series)
  have p: "\<And>n. 0 \<le> ?a n"
    using assms by simp
  have m: "\<And>n. ?a (Suc n) \<le> ?a n"
    using assms by (rule arctan_term_decreasing)
  show "(\<Sum>i<2 * n. (- 1) ^ i * ?a i) \<le> arctan x"
    using summable_Leibniz'(2) [of ?a n, OF z p m] by (simp only: arctan_series [OF ax])
  show "arctan x \<le> (\<Sum>i<2 * n + 1. (- 1) ^ i * ?a i)"
    using summable_Leibniz'(4) [of ?a n, OF z p m] by (simp only: arctan_series [OF ax])
qed

lemma arctan_fifth_bounds:
  "323852 / 1640625 \<le> arctan (1 / 5 :: real)" "arctan (1 / 5 :: real) \<le> 323855 / 1640625"
proof -
  have "(\<Sum>i<2 * 2. (- 1) ^ i * (1 / real (i * 2 + 1) * (1 / 5 :: real) ^ (i * 2 + 1))) \<le> arctan (1 / 5)"
    by (rule arctan_partial_sums) simp_all
  then show "323852 / 1640625 \<le> arctan (1 / 5 :: real)"
    by (simp add: lessThan_Suc eval_nat_numeral)
  have "arctan (1 / 5) \<le> (\<Sum>i<2 * 1 + 1. (- 1) ^ i * (1 / real (i * 2 + 1) * (1 / 5 :: real) ^ (i * 2 + 1)))"
    by (rule arctan_partial_sums) simp_all
  then show "arctan (1 / 5 :: real) \<le> 323855 / 1640625"
    by (simp add: lessThan_Suc eval_nat_numeral)
qed

lemma arctan_239th_bounds:
  "1 / 239 - 1 / 40955757 \<le> arctan (1 / 239 :: real)" "arctan (1 / 239 :: real) \<le> 1 / 239"
proof -
  have "(\<Sum>i<2 * 1. (- 1) ^ i * (1 / real (i * 2 + 1) * (1 / 239 :: real) ^ (i * 2 + 1))) \<le> arctan (1 / 239)"
    by (rule arctan_partial_sums) simp_all
  then show "1 / 239 - 1 / 40955757 \<le> arctan (1 / 239 :: real)"
    by (simp add: lessThan_Suc eval_nat_numeral)
  have "arctan (1 / 239) \<le> (\<Sum>i<2 * 0 + 1. (- 1) ^ i * (1 / real (i * 2 + 1) * (1 / 239 :: real) ^ (i * 2 + 1)))"
    by (rule arctan_partial_sums) simp_all
  then show "arctan (1 / 239 :: real) \<le> 1 / 239"
    by (simp add: lessThan_Suc eval_nat_numeral)
qed

lemma pi_bounds: "3.1415 < pi" "pi < 3.1417"
proof -
  have "pi = 16 * arctan (1 / 5) - 4 * arctan (1 / 239)"
    using machin by simp
  with arctan_fifth_bounds arctan_239th_bounds show "3.1415 < pi" "pi < 3.1417"
    by simp_all
qed

section \<open>Properties of the angle helpers\<close>

lemma fmod_nonneg_range:
  assumes "0 < y" and "0 \<le> x"
  shows "0 \<le> fmod x y \<and> fmod x y < y"
proof -
  have q: "0 \<le> x / y" using assms by simp
  then have t: "truncate_real (x / y) = \<lfloor>x / y\<rfloor>" by (simp add: truncate_real_def)
  have "real_of_int \<lfloor>x / y\<rfloor> \<le> x / y" by simp
  then have lo: "real_of_int \<lfloor>x / y\<rfloor> * y \<le> x"
    using assms(1) by (simp only: pos_le_divide_eq)
  have "x / y < real_of_int \<lfloor>x / y\<rfloor> + 1" by linarith
  then have hi: "x < (real_of_int \<lfloor>x / y\<rfloor> + 1) * y"
    using assms(1) by (simp only: pos_divide_less_eq)
  from lo hi show ?thesis unfolding fmod_def t by (simp add: algebra_simps)
qed

lemma fmod_neg_range:
  assumes "0 < y" and "x < 0"
  shows "- y < fmod x y \<and> fmod x y \<le> 0"
proof -
  have q: "x / y < 0" using assms by (simp add: divide_neg_pos)
  then have t: "truncate_real (x / y) = \<lceil>x / y\<rceil>" by (simp add: truncate_real_def)
  have "real_of_int \<lceil>x / y\<rceil> - 1 < x / y" by linarith
  then have lo: "(real_of_int \<lceil>x / y\<rceil> - 1) * y < x"
    using assms(1) by (simp only: pos_less_divide_eq)
  have "x / y \<le> real_of_int \<lceil>x / y\<rceil>" by simp
  then have hi: "x \<le> real_of_int \<lceil>x / y\<rceil> * y"
    using assms(1) by (simp only: pos_divide_le_eq)
  from lo hi show ?thesis unfolding fmod_def t by (simp add: algebra_simps)
qed

lemma fmod_range:
  assumes "0 < y"
  shows "- y < fmod x y \<and> fmod x y < y"
  using fmod_nonneg_range [OF assms, of x] fmod_neg_range [OF assms, of x] assms
  by (cases "0 \<le> x") auto

lemma NormalizeAnglePositive_range:
  "0 \<le> NormalizeAnglePositive a \<and> NormalizeAnglePositive a < 2 * pi"
proof -
  have y: "0 < 2 * pi" by simp
  have "0 \<le> fmod a (2 * pi) + 2 * pi"
    using fmod_range [OF y, of a] by simp
  then show ?thesis
    unfolding NormalizeAnglePositive_def M_PI_def by (rule fmod_nonneg_range [OF y])
qed

lemma NormalizeAnglePositive_floor:
  "NormalizeAnglePositive a = a - 2 * pi * real_of_int \<lfloor>a / (2 * pi)\<rfloor>"
proof -
  define k1 where "k1 = truncate_real (a / (2 * pi))"
  define k2 where "k2 = truncate_real ((fmod a (2 * pi) + 2 * pi) / (2 * pi))"
  define m where "m = k1 + k2 - 1"
  have eq: "NormalizeAnglePositive a = a - 2 * pi * real_of_int m"
    unfolding NormalizeAnglePositive_def M_PI_def fmod_def m_def k1_def k2_def
    by (simp add: algebra_simps fmod_def)
  have "0 \<le> a - 2 * pi * real_of_int m" and "a - 2 * pi * real_of_int m < 2 * pi"
    using NormalizeAnglePositive_range [of a] unfolding eq by simp_all
  then have "real_of_int m \<le> a / (2 * pi)" and "a / (2 * pi) < real_of_int m + 1"
    by (simp_all add: field_simps)
  then have "\<lfloor>a / (2 * pi)\<rfloor> = m" by (rule floor_unique)
  with eq show ?thesis by simp
qed

lemma NormalizeAnglePositive_shift:
  "NormalizeAnglePositive (a + 2 * pi * real_of_int k) = NormalizeAnglePositive a"
proof -
  have "(a + 2 * pi * real_of_int k) / (2 * pi) = a / (2 * pi) + real_of_int k"
    by (simp add: field_simps)
  then have "\<lfloor>(a + 2 * pi * real_of_int k) / (2 * pi)\<rfloor> = \<lfloor>a / (2 * pi)\<rfloor> + k"
    by simp
  then show ?thesis
    unfolding NormalizeAnglePositive_floor by (simp add: algebra_simps)
qed

lemma NormalizeAnglePositive_id:
  assumes "0 \<le> a" and "a < 2 * pi"
  shows "NormalizeAnglePositive a = a"
proof -
  have "\<lfloor>a / (2 * pi)\<rfloor> = 0"
    using assms by (intro floor_unique) (simp_all add: field_simps)
  then show ?thesis unfolding NormalizeAnglePositive_floor by simp
qed

lemma NormalizeAngle_range: "- pi < NormalizeAngle a \<and> NormalizeAngle a \<le> pi"
  using NormalizeAnglePositive_range [of a]
  by (auto simp: NormalizeAngle_def M_PI_def Let_def)

lemma NormalizeAngle_cong:
  "NormalizeAnglePositive a = NormalizeAnglePositive b \<Longrightarrow> NormalizeAngle a = NormalizeAngle b"
  by (simp add: NormalizeAngle_def)

lemma NormalizeAngle_id:
  assumes "- pi < a" and "a \<le> pi"
  shows "NormalizeAngle a = a"
proof (cases "0 \<le> a")
  case True
  then have "NormalizeAnglePositive a = a"
    using assms by (intro NormalizeAnglePositive_id) simp_all
  with assms show ?thesis by (simp add: NormalizeAngle_def M_PI_def)
next
  case False
  have "NormalizeAnglePositive a = NormalizeAnglePositive (a + 2 * pi * real_of_int 1)"
    by (simp only: NormalizeAnglePositive_shift)
  also have "\<dots> = a + 2 * pi"
    using assms False by (intro trans [OF NormalizeAnglePositive_id]) simp_all
  finally show ?thesis using False assms by (simp add: NormalizeAngle_def M_PI_def Let_def)
qed

lemma ShortestAngularDistance_eq:
  "ShortestAngularDistance from to =
     (let d = NormalizeAnglePositive (NormalizeAnglePositive to - NormalizeAnglePositive from)
      in if d > pi then d - 2 * pi else d)"
proof -
  define d where "d = NormalizeAnglePositive (NormalizeAnglePositive to - NormalizeAnglePositive from)"
  have r: "0 \<le> d \<and> d < 2 * pi" unfolding d_def by (rule NormalizeAnglePositive_range)
  show ?thesis
  proof (cases "d > pi")
    case True
    have "NormalizeAngle (d - 2 * pi) = d - 2 * pi"
      using r True by (intro NormalizeAngle_id) simp_all
    then show ?thesis
      unfolding ShortestAngularDistance_def Let_def M_PI_def d_def [symmetric]
      using True by simp
  next
    case False
    have "NormalizeAngle d = d"
      using r False by (intro NormalizeAngle_id) simp_all
    then show ?thesis
      unfolding ShortestAngularDistance_def Let_def M_PI_def d_def [symmetric]
      using False by simp
  qed
qed

lemma ShortestAngularDistance_congruent:
  "\<exists>k. ShortestAngularDistance from to = to - from + 2 * pi * real_of_int k"
proof -
  define d where "d = NormalizeAnglePositive to - NormalizeAnglePositive from"
  define j where "j = \<lfloor>from / (2 * pi)\<rfloor> - \<lfloor>to / (2 * pi)\<rfloor> - \<lfloor>d / (2 * pi)\<rfloor>"
  have n: "NormalizeAnglePositive d = to - from + 2 * pi * real_of_int j"
    unfolding NormalizeAnglePositive_floor [of d]
    unfolding d_def j_def NormalizeAnglePositive_floor [of to] NormalizeAnglePositive_floor [of "from"]
    by (simp add: algebra_simps)
  show ?thesis
  proof (cases "NormalizeAnglePositive d > pi")
    case True
    then have "ShortestAngularDistance from to = to - from + 2 * pi * real_of_int (j - 1)"
      unfolding ShortestAngularDistance_eq Let_def d_def [symmetric] n by (simp add: algebra_simps)
    then show ?thesis ..
  next
    case False
    then have "ShortestAngularDistance from to = to - from + 2 * pi * real_of_int j"
      unfolding ShortestAngularDistance_eq Let_def d_def [symmetric] n by simp
    then show ?thesis ..
  qed
qed

text \<open>
  Claim C3. For every real angle, \<open>NormalizeAnglePositive\<close> lies in the half-open
  interval from 0 (included) to \<open>2\<pi>\<close> (excluded), and \<open>NormalizeAngle\<close> in the half-open
  interval from \<open>-\<pi>\<close> (excluded) to \<open>\<pi>\<close> (included).
\<close>

theorem NormalizeAngle_ranges:
  "0 \<le> NormalizeAnglePositive a \<and> NormalizeAnglePositive a < 2 * pi
   \<and> - pi < NormalizeAngle a \<and> NormalizeAngle a \<le> pi"
  using NormalizeAnglePositive_range [of a] NormalizeAngle_range [of a] by simp

text \<open>
  In exact arithmetic the shortest angular distance from an angle to itself is 0, its
  magnitude is at most \<open>\<pi>\<close>, and adding it to \<open>from\<close> gives an angle that normalizes
  to the same value as \<open>to\<close>.
\<close>

lemma ShortestAngularDistance_exact_arithmetic:
  "ShortestAngularDistance a a = 0
   \<and> \<bar>ShortestAngularDistance from to\<bar> \<le> pi
   \<and> NormalizeAngle (from + ShortestAngularDistance from to) = NormalizeAngle to"
proof (intro conjI)
  have "NormalizeAnglePositive 0 = 0" by (rule NormalizeAnglePositive_id) simp_all
  then show "ShortestAngularDistance a a = 0"
    by (simp add: ShortestAngularDistance_eq)
  have "- pi < ShortestAngularDistance from to \<and> ShortestAngularDistance from to \<le> pi"
    unfolding ShortestAngularDistance_def Let_def by (rule NormalizeAngle_range)
  then show "\<bar>ShortestAngularDistance from to\<bar> \<le> pi" by linarith
  obtain k where "ShortestAngularDistance from to = to - from + 2 * pi * real_of_int k"
    using ShortestAngularDistance_congruent by blast
  then have "from + ShortestAngularDistance from to = to + 2 * pi * real_of_int k" by simp
  then have "NormalizeAnglePositive (from + ShortestAngularDistance from to) = NormalizeAnglePositive to"
    by (simp only: NormalizeAnglePositive_shift)
  then show "NormalizeAngle (from + ShortestAngularDistance from to) = NormalizeAngle to"
    by (rule NormalizeAngle_cong)
qed

lemma ShortestAngularDistance_3_m3: "ShortestAngularDistance 3 (- 3) = 2 * pi - 6"
proof -
  have t: "NormalizeAnglePositive (- 3) = 2 * pi - 3"
  proof -
    have "NormalizeAnglePositive (- 3) = NormalizeAnglePositive (- 3 + 2 * pi * real_of_int 1)"
      by (simp only: NormalizeAnglePositive_shift)
    also have "\<dots> = 2 * pi - 3"
      using pi_bounds by (intro trans [OF NormalizeAnglePositive_id]) simp_all
    finally show ?thesis .
  qed
  have f: "NormalizeAnglePositive 3 = 3"
    using pi_bounds by (intro NormalizeAnglePositive_id) simp_all
  have d: "NormalizeAnglePositive (2 * pi - 3 - 3) = 2 * pi - 6"
    using pi_bounds by (intro trans [OF NormalizeAnglePositive_id]) simp_all
  show ?thesis
    unfolding ShortestAngularDistance_eq t f d Let_def using pi_bounds by simp
qed

text \<open>
  Claim C2, as the code has it. The shortest angular distance from 3 to -3 is
  \<open>2\<pi> - 6\<close>, which is positive and about 0.283: the shorter way from 3 to -3 goes up
  through \<open>\<pi>\<close>.
\<close>

theorem ShortestAngularDistance_scenario:
  "ShortestAngularDistance 3 (- 3) = 2 * pi - 6
   \<and> 0.283 < ShortestAngularDistance 3 (- 3) \<and> ShortestAngularDistance 3 (- 3) < 0.2834"
  unfolding ShortestAngularDistance_3_m3 using pi_bounds by simp

text \<open>
  Claim C2, as it is stated, asks for a negative distance of about -0.283. The distance
  is not negative, and it is more than 0.5 away from -0.283.
\<close>

theorem ShortestAngularDistance_scenario_counterexample:
  "\<not> (ShortestAngularDistance 3 (- 3) < 0) \<and> \<not> \<bar>ShortestAngularDistance 3 (- 3) - (- 0.283)\<bar> < 0.5"
  unfolding ShortestAngularDistance_3_m3 using pi_bounds by simp

section \<open>Properties of the angle helpers in double precision\<close>

lemma round_binary64_eval:
  assumes "x \<noteq> 0" and "- 1022 \<le> e" and "2 powi e \<le> \<bar>x\<bar>" and "\<bar>x\<bar> < 2 powi (e + 1)"
  shows "round_binary64 x =
    real_of_int (round_half_even (x / 2 powi (e - 52))) * 2 powi (e - 52)"
  using round_float_eval [OF assms, of 53] by (simp add: round_binary64_def)

lemma round_binary64_0 [simp]: "round_binary64 0 = 0"
  by (simp add: round_binary64_def)

lemma round_binary64_mono: "x \<le> y \<Longrightarrow> round_binary64 x \<le> round_binary64 y"
  unfolding round_binary64_def by (rule round_float_mono) simp_all

lemma round_binary64_nonneg: "0 \<le> x \<Longrightarrow> 0 \<le> round_binary64 x"
  unfolding round_binary64_def by (rule round_float_nonneg)

lemma round_binary64_error:
  "\<bar>round_binary64 x - x\<bar> \<le> max \<bar>x\<bar> (2 powi (- 1022)) / 2 ^ 53"
  using round_float_error [of 53 "- 1022" x] by (simp add: round_binary64_def)

lemma tiny_le_1: "(2::real) powi (- 1022) \<le> 1"
  by (simp add: power_int_minus field_simps)

lemma round_binary64_error_16:
  assumes "\<bar>x\<bar> \<le> 16"
  shows "\<bar>round_binary64 x - x\<bar> \<le> 1 / 2 ^ 49"
proof -
  have "max \<bar>x\<bar> (2 powi (- 1022)) \<le> 16"
    using assms tiny_le_1 by simp
  then have "max \<bar>x\<bar> (2 powi (- 1022)) / 2 ^ 53 \<le> 16 / 2 ^ 53"
    by (simp add: divide_right_mono)
  with round_binary64_error [of x] show ?thesis by simp
qed

lemma M_PI64_representable: "round_binary64 M_PI64 = M_PI64"
  unfolding M_PI64_def
  by (subst round_binary64_eval [where e = 1]) (simp_all add: round_half_even_def)

lemma TWO_PI64_value: "TWO_PI64 = 2 * M_PI64"
  unfolding TWO_PI64_def M_PI64_def
  by (subst round_binary64_eval [where e = 2]) (simp_all add: round_half_even_def)

lemma M_PI64_bounds: "3 < M_PI64" "M_PI64 < 4"
  by (simp_all add: M_PI64_def)

lemma TWO_PI64_bounds: "0 < TWO_PI64" "6 < TWO_PI64" "TWO_PI64 < 8"
  using M_PI64_bounds by (simp_all add: TWO_PI64_value)


lemma round_binary64_minus: "round_binary64 (- x) = - round_binary64 x"
  by (simp add: round_binary64_def round_float_minus)

lemma M_PI64_less_pi: "M_PI64 < pi"
proof -
  let ?l = "\<Sum>i<2 * 6. (- 1) ^ i * (1 / real (i * 2 + 1) * (1 / 5 :: real) ^ (i * 2 + 1))"
  let ?u = "\<Sum>i<2 * 1 + 1. (- 1) ^ i * (1 / real (i * 2 + 1) * (1 / 239 :: real) ^ (i * 2 + 1))"
  have l: "?l \<le> arctan (1 / 5)"
    by (rule arctan_partial_sums) simp_all
  have u: "arctan (1 / 239) \<le> ?u"
    by (rule arctan_partial_sums) simp_all
  have "M_PI64 < 16 * ?l - 4 * ?u"
    by (simp add: M_PI64_def lessThan_Suc eval_nat_numeral)
  also have "\<dots> \<le> 16 * arctan (1 / 5) - 4 * arctan (1 / 239)"
    using l u by linarith
  also have "\<dots> = pi"
    using machin by simp
  finally show ?thesis .
qed

lemma NormalizeAnglePositive64_range:
  "0 \<le> NormalizeAnglePositive64 a \<and> NormalizeAnglePositive64 a < TWO_PI64"
proof -
  have "0 \<le> fmod a TWO_PI64 + TWO_PI64"
    using fmod_range [OF TWO_PI64_bounds(1), of a] by simp
  then have "0 \<le> round_binary64 (fmod a TWO_PI64 + TWO_PI64)"
    by (rule round_binary64_nonneg)
  then show ?thesis
    unfolding NormalizeAnglePositive64_def by (rule fmod_nonneg_range [OF TWO_PI64_bounds(1)])
qed

lemma NormalizeAnglePositive64_congruent:
  "\<exists>k::int. \<bar>NormalizeAnglePositive64 a - a - real_of_int k * TWO_PI64\<bar> \<le> 1 / 2 ^ 49"
proof -
  define r where "r = fmod a TWO_PI64"
  define s where "s = round_binary64 (r + TWO_PI64)"
  define k1 where "k1 = truncate_real (a / TWO_PI64)"
  define k2 where "k2 = truncate_real (s / TWO_PI64)"
  have r: "r = a - real_of_int k1 * TWO_PI64"
    unfolding r_def k1_def fmod_def ..
  have "- TWO_PI64 < r \<and> r < TWO_PI64"
    unfolding r_def by (rule fmod_range [OF TWO_PI64_bounds(1)])
  then have "\<bar>r + TWO_PI64\<bar> \<le> 16"
    using TWO_PI64_bounds by linarith
  then have e: "\<bar>s - (r + TWO_PI64)\<bar> \<le> 1 / 2 ^ 49"
    unfolding s_def by (rule round_binary64_error_16)
  have n: "NormalizeAnglePositive64 a = s - real_of_int k2 * TWO_PI64"
    unfolding NormalizeAnglePositive64_def s_def r_def k2_def fmod_def ..
  have "NormalizeAnglePositive64 a - a - real_of_int (1 - k1 - k2) * TWO_PI64 = s - (r + TWO_PI64)"
    unfolding n r by (simp add: algebra_simps)
  with e have "\<bar>NormalizeAnglePositive64 a - a - real_of_int (1 - k1 - k2) * TWO_PI64\<bar> \<le> 1 / 2 ^ 49"
    by (simp only:)
  then show ?thesis ..
qed

lemma NormalizeAngle64_range:
  "- M_PI64 \<le> NormalizeAngle64 a \<and> NormalizeAngle64 a \<le> M_PI64"
proof (cases "NormalizeAnglePositive64 a > M_PI64")
  case True
  define x where "x = NormalizeAnglePositive64 a - TWO_PI64"
  have "- M_PI64 \<le> x" and "x \<le> 0"
    using True NormalizeAnglePositive64_range [of a] unfolding x_def TWO_PI64_value by linarith+
  then have "round_binary64 (- M_PI64) \<le> round_binary64 x" and "round_binary64 x \<le> round_binary64 0"
    by (simp_all only: round_binary64_mono)
  then have "- M_PI64 \<le> round_binary64 x" and "round_binary64 x \<le> 0"
    by (simp_all add: round_binary64_minus M_PI64_representable)
  moreover have "NormalizeAngle64 a = round_binary64 x"
    using True by (simp add: NormalizeAngle64_def x_def)
  ultimately show ?thesis
    using M_PI64_bounds by linarith
next
  case False
  then have "NormalizeAngle64 a = NormalizeAnglePositive64 a"
    by (simp add: NormalizeAngle64_def)
  with False NormalizeAnglePositive64_range [of a] M_PI64_bounds show ?thesis
    by linarith
qed

lemma NormalizeAngle64_congruent:
  "\<exists>k::int. \<bar>NormalizeAngle64 a - a - real_of_int k * TWO_PI64\<bar> \<le> 2 / 2 ^ 49"
proof -
  define p where "p = NormalizeAnglePositive64 a"
  obtain k :: int where k: "\<bar>p - a - real_of_int k * TWO_PI64\<bar> \<le> 1 / 2 ^ 49"
    unfolding p_def using NormalizeAnglePositive64_congruent by blast
  have pr: "0 \<le> p \<and> p < TWO_PI64"
    unfolding p_def by (rule NormalizeAnglePositive64_range)
  show ?thesis
  proof (cases "p > M_PI64")
    case True
    have "\<bar>p - TWO_PI64\<bar> \<le> 16"
      using pr TWO_PI64_bounds by linarith
    then have e: "\<bar>round_binary64 (p - TWO_PI64) - (p - TWO_PI64)\<bar> \<le> 1 / 2 ^ 49"
      by (rule round_binary64_error_16)
    have n: "NormalizeAngle64 a = round_binary64 (p - TWO_PI64)"
      using True by (simp add: NormalizeAngle64_def p_def)
    have "NormalizeAngle64 a - a - real_of_int (k - 1) * TWO_PI64
        = (round_binary64 (p - TWO_PI64) - (p - TWO_PI64)) + (p - a - real_of_int k * TWO_PI64)"
      unfolding n by (simp add: algebra_simps)
    with e k have "\<bar>NormalizeAngle64 a - a - real_of_int (k - 1) * TWO_PI64\<bar> \<le> 2 / 2 ^ 49"
      by linarith
    then show ?thesis ..
  next
    case False
    then have "NormalizeAngle64 a = p"
      by (simp add: NormalizeAngle64_def p_def)
    with k have "\<bar>NormalizeAngle64 a - a - real_of_int k * TWO_PI64\<bar> \<le> 2 / 2 ^ 49"
      by simp
    then show ?thesis ..
  qed
qed

lemma ShortestAngularDistance64_range:
  "- M_PI64 \<le> ShortestAngularDistance64 from to \<and> ShortestAngularDistance64 from to \<le> M_PI64"
  unfolding ShortestAngularDistance64_def Let_def by (rule NormalizeAngle64_range)

lemma ShortestAngularDistance64_congruent:
  "\<exists>k::int. \<bar>ShortestAngularDistance64 from to - (to - from) - real_of_int k * TWO_PI64\<bar> \<le> 7 / 2 ^ 49"
proof -
  define nt where "nt = NormalizeAnglePositive64 to"
  define nf where "nf = NormalizeAnglePositive64 from"
  define d where "d = round_binary64 (nt - nf)"
  define r0 where "r0 = NormalizeAnglePositive64 d"
  define r1 where "r1 = (if r0 > M_PI64 then - round_binary64 (TWO_PI64 - r0) else r0)"
  have sad: "ShortestAngularDistance64 from to = NormalizeAngle64 r1"
    unfolding ShortestAngularDistance64_def Let_def r1_def r0_def d_def nt_def nf_def ..
  obtain kt :: int where kt: "\<bar>nt - to - real_of_int kt * TWO_PI64\<bar> \<le> 1 / 2 ^ 49"
    unfolding nt_def using NormalizeAnglePositive64_congruent by blast
  obtain kf :: int where kf: "\<bar>nf - from - real_of_int kf * TWO_PI64\<bar> \<le> 1 / 2 ^ 49"
    unfolding nf_def using NormalizeAnglePositive64_congruent by blast
  have "0 \<le> nt \<and> nt < TWO_PI64" and "0 \<le> nf \<and> nf < TWO_PI64"
    unfolding nt_def nf_def by (rule NormalizeAnglePositive64_range)+
  then have "\<bar>nt - nf\<bar> \<le> 16"
    using TWO_PI64_bounds by linarith
  then have ed: "\<bar>d - (nt - nf)\<bar> \<le> 1 / 2 ^ 49"
    unfolding d_def by (rule round_binary64_error_16)
  obtain k0 :: int where k0: "\<bar>r0 - d - real_of_int k0 * TWO_PI64\<bar> \<le> 1 / 2 ^ 49"
    unfolding r0_def using NormalizeAnglePositive64_congruent by blast
  have r0: "0 \<le> r0 \<and> r0 < TWO_PI64"
    unfolding r0_def by (rule NormalizeAnglePositive64_range)
  have "\<exists>j::int. \<bar>r1 - r0 - real_of_int j * TWO_PI64\<bar> \<le> 1 / 2 ^ 49"
  proof (cases "r0 > M_PI64")
    case True
    have "\<bar>TWO_PI64 - r0\<bar> \<le> 16"
      using r0 TWO_PI64_bounds by linarith
    then have "\<bar>round_binary64 (TWO_PI64 - r0) - (TWO_PI64 - r0)\<bar> \<le> 1 / 2 ^ 49"
      by (rule round_binary64_error_16)
    moreover have "r1 - r0 - real_of_int (- 1) * TWO_PI64
        = - (round_binary64 (TWO_PI64 - r0) - (TWO_PI64 - r0))"
      using True by (simp add: r1_def)
    ultimately have "\<bar>r1 - r0 - real_of_int (- 1) * TWO_PI64\<bar> \<le> 1 / 2 ^ 49"
      by linarith
    then show ?thesis ..
  next
    case False
    then have "\<bar>r1 - r0 - real_of_int 0 * TWO_PI64\<bar> \<le> 1 / 2 ^ 49"
      by (simp add: r1_def)
    then show ?thesis ..
  qed
  then obtain j :: int where j: "\<bar>r1 - r0 - real_of_int j * TWO_PI64\<bar> \<le> 1 / 2 ^ 49"
    by blast
  obtain kn :: int where kn: "\<bar>NormalizeAngle64 r1 - r1 - real_of_int kn * TWO_PI64\<bar> \<le> 2 / 2 ^ 49"
    using NormalizeAngle64_congruent by blast
  have "ShortestAngularDistance64 from to - (to - from) - real_of_int (kn + j + k0 + kt - kf) * TWO_PI64
      = (NormalizeAngle64 r1 - r1 - real_of_int kn * TWO_PI64)
        + (r1 - r0 - real_of_int j * TWO_PI64)
        + (r0 - d - real_of_int k0 * TWO_PI64)
        + (d - (nt - nf))
        + (nt - to - real_of_int kt * TWO_PI64)
        - (nf - from - real_of_int kf * TWO_PI64)"
    unfolding sad by (simp add: algebra_simps)
  with kn j k0 ed kt kf
  have "\<bar>ShortestAngularDistance64 from to - (to - from)
          - real_of_int (kn + j + k0 + kt - kf) * TWO_PI64\<bar> \<le> 7 / 2 ^ 49"
    by linarith
  then show ?thesis ..
qed

lemma ShortestAngularDistance64_same: "ShortestAngularDistance64 a a = 0"
proof -
  have t: "round_binary64 TWO_PI64 = TWO_PI64"
    unfolding TWO_PI64_value M_PI64_def
    by (subst round_binary64_eval [where e = 2]) (simp_all add: round_half_even_def)
  have z: "NormalizeAnglePositive64 0 = 0"
    unfolding NormalizeAnglePositive64_def using TWO_PI64_bounds
    by (simp add: fmod_def t truncate_real_def)
  have "NormalizeAngle64 0 = 0"
    unfolding NormalizeAngle64_def z using M_PI64_bounds by simp
  then show ?thesis
    unfolding ShortestAngularDistance64_def using M_PI64_bounds by (simp add: z)
qed

lemma NormalizeAnglePositive64_evalI:
  assumes "fmod x TWO_PI64 = r" and "round_binary64 (r + TWO_PI64) = s" and "fmod s TWO_PI64 = q"
  shows "NormalizeAnglePositive64 x = q"
  unfolding NormalizeAnglePositive64_def assms ..

lemma whole_turns:
  fixes r t eps :: real and k :: int
  assumes "\<bar>r - real_of_int k * t\<bar> \<le> eps" and "\<bar>r\<bar> \<le> t" and "0 < t"
  shows "\<bar>r\<bar> \<le> eps \<or> \<bar>r - t\<bar> \<le> eps \<or> \<bar>r + t\<bar> \<le> eps"
proof -
  consider "k = 0" | "k = 1" | "k = - 1" | "2 \<le> k" | "k \<le> - 2"
    by linarith
  then show ?thesis
  proof cases
    case 1 with assms(1) show ?thesis by simp
  next
    case 2 with assms(1) show ?thesis by simp
  next
    case 3 with assms(1) show ?thesis by simp
  next
    case 4
    then have "2 \<le> real_of_int k" by simp
    then have "2 * t \<le> real_of_int k * t"
      using assms(3) by (simp only: mult_le_cancel_right_pos)
    with assms(1,2) show ?thesis by linarith
  next
    case 5
    then have "real_of_int k \<le> - 2" by simp
    then have "real_of_int k * t \<le> - 2 * t"
      using assms(3) by (simp only: mult_le_cancel_right_pos)
    with assms(1,2) show ?thesis by linarith
  qed
qed

lemma ShortestAngularDistance64_returns:
  fixes "from" to :: real
  defines "r \<equiv> NormalizeAngle64 (round_binary64 (from + ShortestAngularDistance64 from to))
                  - NormalizeAngle64 to"
      and "eps \<equiv> 1 / 2 ^ 45 + \<bar>from\<bar> / 2 ^ 53"
  shows "\<bar>r\<bar> \<le> eps \<or> \<bar>r - TWO_PI64\<bar> \<le> eps \<or> \<bar>r + TWO_PI64\<bar> \<le> eps"
proof -
  define sd where "sd = ShortestAngularDistance64 from to"
  define sm where "sm = round_binary64 (from + sd)"
  have sdr: "- M_PI64 \<le> sd \<and> sd \<le> M_PI64"
    unfolding sd_def by (rule ShortestAngularDistance64_range)
  obtain ks :: int where ks: "\<bar>sd - (to - from) - real_of_int ks * TWO_PI64\<bar> \<le> 7 / 2 ^ 49"
    unfolding sd_def using ShortestAngularDistance64_congruent by blast
  have "max \<bar>from + sd\<bar> (2 powi (- 1022)) \<le> \<bar>from\<bar> + 4"
    using sdr M_PI64_bounds tiny_le_1 by (simp; linarith)
  then have "max \<bar>from + sd\<bar> (2 powi (- 1022)) / 2 ^ 53 \<le> (\<bar>from\<bar> + 4) / 2 ^ 53"
    by (simp only: divide_right_mono zero_le_numeral zero_le_power)
  moreover have "(\<bar>from\<bar> + 4) / 2 ^ 53 = \<bar>from\<bar> / 2 ^ 53 + 4 / 2 ^ 53"
    by (rule add_divide_distrib)
  ultimately have es: "\<bar>sm - (from + sd)\<bar> \<le> \<bar>from\<bar> / 2 ^ 53 + 4 / 2 ^ 53"
    unfolding sm_def using round_binary64_error [of "from + sd"] by linarith
  obtain ka :: int where ka: "\<bar>NormalizeAngle64 sm - sm - real_of_int ka * TWO_PI64\<bar> \<le> 2 / 2 ^ 49"
    using NormalizeAngle64_congruent by blast
  obtain kb :: int where kb: "\<bar>NormalizeAngle64 to - to - real_of_int kb * TWO_PI64\<bar> \<le> 2 / 2 ^ 49"
    using NormalizeAngle64_congruent by blast
  have r: "r = NormalizeAngle64 sm - NormalizeAngle64 to"
    unfolding r_def sm_def sd_def ..
  have "r - real_of_int (ka + ks - kb) * TWO_PI64
      = (NormalizeAngle64 sm - sm - real_of_int ka * TWO_PI64)
        + (sm - (from + sd))
        + (sd - (to - from) - real_of_int ks * TWO_PI64)
        - (NormalizeAngle64 to - to - real_of_int kb * TWO_PI64)"
    unfolding r by (simp add: algebra_simps)
  with ka es ks kb have "\<bar>r - real_of_int (ka + ks - kb) * TWO_PI64\<bar>
      \<le> 11 / 2 ^ 49 + 4 / 2 ^ 53 + \<bar>from\<bar> / 2 ^ 53"
    by linarith
  moreover have "(11 / 2 ^ 49 + 4 / 2 ^ 53 :: real) \<le> 1 / 2 ^ 45"
    by simp
  ultimately have c: "\<bar>r - real_of_int (ka + ks - kb) * TWO_PI64\<bar> \<le> eps"
    unfolding eps_def by linarith
  have "\<bar>r\<bar> \<le> TWO_PI64"
    using NormalizeAngle64_range [of sm] NormalizeAngle64_range [of to]
    unfolding r TWO_PI64_value by linarith
  with c show ?thesis
    using TWO_PI64_bounds(1) by (rule whole_turns)
qed

text \<open>
  Claim C4, as the code has it. In \<^verbatim>\<open>double\<close> arithmetic the shortest angular distance
  from an angle to itself is 0, and the magnitude of the shortest angular distance
  between any two angles is at most \<^verbatim>\<open>M_PI\<close>, which is less than \<open>\<pi>\<close>. Adding the
  distance to \<open>from\<close> gives an angle whose normalization differs from that of \<open>to\<close> by
  at most \<open>1 / 2 ^ 45 + \<bar>from\<bar> / 2 ^ 53\<close>, the rounding of the steps, or else by a whole
  turn \<^verbatim>\<open>2.0 * M_PI\<close> up to that same rounding: at the ends \<open>-\<pi>\<close> and \<open>\<pi>\<close> of the range
  the two normalizations can fall on opposite sides.
\<close>

theorem ShortestAngularDistance64_properties:
  "ShortestAngularDistance64 a a = 0
   \<and> \<bar>ShortestAngularDistance64 from to\<bar> \<le> M_PI64 \<and> M_PI64 < pi
   \<and> (let r = NormalizeAngle64 (round_binary64 (from + ShortestAngularDistance64 from to))
                - NormalizeAngle64 to;
          eps = 1 / 2 ^ 45 + \<bar>from\<bar> / 2 ^ 53
      in \<bar>r\<bar> \<le> eps \<or> \<bar>r - TWO_PI64\<bar> \<le> eps \<or> \<bar>r + TWO_PI64\<bar> \<le> eps)"
proof (intro conjI)
  show "ShortestAngularDistance64 a a = 0"
    by (rule ShortestAngularDistance64_same)
  show "\<bar>ShortestAngularDistance64 from to\<bar> \<le> M_PI64"
    using ShortestAngularDistance64_range [of "from" to] by linarith
  show "M_PI64 < pi"
    by (rule M_PI64_less_pi)
  show "let r = NormalizeAngle64 (round_binary64 (from + ShortestAngularDistance64 from to))
                - NormalizeAngle64 to;
          eps = 1 / 2 ^ 45 + \<bar>from\<bar> / 2 ^ 53
      in \<bar>r\<bar> \<le> eps \<or> \<bar>r - TWO_PI64\<bar> \<le> eps \<or> \<bar>r + TWO_PI64\<bar> \<le> eps"
    unfolding Let_def by (rule ShortestAngularDistance64_returns)
qed

text \<open>
  Claim C4, as it is stated, has \<open>NormalizeAngle (from + distance)\<close> approximately equal
  to \<open>NormalizeAngle to\<close>. From the \<^verbatim>\<open>double\<close> -5.2488857967711438 to \<^verbatim>\<open>M_PI\<close> the
  distance is 2.1072931431813515; the sum normalizes to -3.1415926535897922 and \<^verbatim>\<open>M_PI\<close>
  to itself, 3.141592653589793: the two are a whole turn apart.
\<close>

theorem ShortestAngularDistance64_seam_counterexample:
  "round_binary64 (- 5909720029612203 / 2 ^ 50) = - 5909720029612203 / 2 ^ 50
   \<and> round_binary64 M_PI64 = M_PI64
   \<and> ShortestAngularDistance64 (- 5909720029612203 / 2 ^ 50) M_PI64 = 74143786049937 / 2 ^ 45
   \<and> NormalizeAngle64 (round_binary64 (- 5909720029612203 / 2 ^ 50
        + ShortestAngularDistance64 (- 5909720029612203 / 2 ^ 50) M_PI64))
      = - 3537118876014219 / 2 ^ 50
   \<and> NormalizeAngle64 M_PI64 = M_PI64
   \<and> \<not> \<bar>NormalizeAngle64 (round_binary64 (- 5909720029612203 / 2 ^ 50
          + ShortestAngularDistance64 (- 5909720029612203 / 2 ^ 50) M_PI64))
        - NormalizeAngle64 M_PI64\<bar> \<le> 6"
proof -
  have nt: "NormalizeAnglePositive64 (884279719003555 / 2 ^ 48) = 884279719003555 / 2 ^ 48"
  proof -
    have a: "fmod (884279719003555 / 2 ^ 48) TWO_PI64 = 884279719003555 / 2 ^ 48"
      by (simp add: fmod_def truncate_real_def TWO_PI64_value M_PI64_def)
    have b: "round_binary64 (884279719003555 / 2 ^ 48 + TWO_PI64) = 2652839157010665 / 2 ^ 48"
      by (subst round_binary64_eval [where e = 3]) (simp_all add: TWO_PI64_value M_PI64_def round_half_even_def)
    have c: "fmod (2652839157010665 / 2 ^ 48) TWO_PI64 = 884279719003555 / 2 ^ 48"
      by (simp add: fmod_def truncate_real_def TWO_PI64_value M_PI64_def)
    show ?thesis by (rule NormalizeAnglePositive64_evalI [OF a b c])
  qed
  have nf: "NormalizeAnglePositive64 (- 5909720029612203 / 2 ^ 50) = 1164517722416237 / 2 ^ 50"
  proof -
    have a: "fmod (- 5909720029612203 / 2 ^ 50) TWO_PI64 = - 5909720029612203 / 2 ^ 50"
      by (simp add: fmod_def truncate_real_def TWO_PI64_value M_PI64_def)
    have b: "round_binary64 (- 5909720029612203 / 2 ^ 50 + TWO_PI64) = 1164517722416237 / 2 ^ 50"
      by (subst round_binary64_eval [where e = 0]) (simp_all add: TWO_PI64_value M_PI64_def round_half_even_def)
    have c: "fmod (1164517722416237 / 2 ^ 50) TWO_PI64 = 1164517722416237 / 2 ^ 50"
      by (simp add: fmod_def truncate_real_def TWO_PI64_value M_PI64_def)
    show ?thesis by (rule NormalizeAnglePositive64_evalI [OF a b c])
  qed
  have d: "round_binary64 (884279719003555 / 2 ^ 48 - 1164517722416237 / 2 ^ 50) = 2372601153597983 / 2 ^ 50"
    by (subst round_binary64_eval [where e = 1]) (simp_all add: TWO_PI64_value M_PI64_def round_half_even_def)
  have res: "NormalizeAnglePositive64 (2372601153597983 / 2 ^ 50) = 74143786049937 / 2 ^ 45"
  proof -
    have a: "fmod (2372601153597983 / 2 ^ 50) TWO_PI64 = 2372601153597983 / 2 ^ 50"
      by (simp add: fmod_def truncate_real_def TWO_PI64_value M_PI64_def)
    have b: "round_binary64 (2372601153597983 / 2 ^ 50 + TWO_PI64) = 1180854863203303 / 2 ^ 47"
      by (subst round_binary64_eval [where e = 3]) (simp_all add: TWO_PI64_value M_PI64_def round_half_even_def)
    have c: "fmod (1180854863203303 / 2 ^ 47) TWO_PI64 = 74143786049937 / 2 ^ 45"
      by (simp add: fmod_def truncate_real_def TWO_PI64_value M_PI64_def)
    show ?thesis by (rule NormalizeAnglePositive64_evalI [OF a b c])
  qed
  have le: "(if 74143786049937 / 2 ^ 45 > M_PI64 then - round_binary64 (TWO_PI64 - 74143786049937 / 2 ^ 45) else 74143786049937 / 2 ^ 45) = 74143786049937 / 2 ^ 45"
    by (simp add: M_PI64_def)
  have na_res_pos: "NormalizeAnglePositive64 (74143786049937 / 2 ^ 45) = 74143786049937 / 2 ^ 45"
  proof -
    have a: "fmod (74143786049937 / 2 ^ 45) TWO_PI64 = 74143786049937 / 2 ^ 45"
      by (simp add: fmod_def truncate_real_def TWO_PI64_value M_PI64_def)
    have b: "round_binary64 (74143786049937 / 2 ^ 45 + TWO_PI64) = 1180854863203303 / 2 ^ 47"
      by (subst round_binary64_eval [where e = 3]) (simp_all add: TWO_PI64_value M_PI64_def round_half_even_def)
    have c: "fmod (1180854863203303 / 2 ^ 47) TWO_PI64 = 74143786049937 / 2 ^ 45"
      by (simp add: fmod_def truncate_real_def TWO_PI64_value M_PI64_def)
    show ?thesis by (rule NormalizeAnglePositive64_evalI [OF a b c])
  qed
  have na_res: "NormalizeAngle64 (74143786049937 / 2 ^ 45) = 74143786049937 / 2 ^ 45"
    unfolding NormalizeAngle64_def na_res_pos Let_def by (simp add: M_PI64_def)
  have sad: "ShortestAngularDistance64 (- 5909720029612203 / 2 ^ 50) (884279719003555 / 2 ^ 48) = 74143786049937 / 2 ^ 45"
    unfolding ShortestAngularDistance64_def nt nf d res Let_def le na_res ..
  have sum: "round_binary64 (- 5909720029612203 / 2 ^ 50 + 74143786049937 / 2 ^ 45) = - 3537118876014219 / 2 ^ 50"
    by (subst round_binary64_eval [where e = 1]) (simp_all add: TWO_PI64_value M_PI64_def round_half_even_def)
  have na_sum_pos: "NormalizeAnglePositive64 (- 3537118876014219 / 2 ^ 50) = 3537118876014221 / 2 ^ 50"
  proof -
    have a: "fmod (- 3537118876014219 / 2 ^ 50) TWO_PI64 = - 3537118876014219 / 2 ^ 50"
      by (simp add: fmod_def truncate_real_def TWO_PI64_value M_PI64_def)
    have b: "round_binary64 (- 3537118876014219 / 2 ^ 50 + TWO_PI64) = 3537118876014221 / 2 ^ 50"
      by (subst round_binary64_eval [where e = 1]) (simp_all add: TWO_PI64_value M_PI64_def round_half_even_def)
    have c: "fmod (3537118876014221 / 2 ^ 50) TWO_PI64 = 3537118876014221 / 2 ^ 50"
      by (simp add: fmod_def truncate_real_def TWO_PI64_value M_PI64_def)
    show ?thesis by (rule NormalizeAnglePositive64_evalI [OF a b c])
  qed
  have na_sum: "NormalizeAngle64 (- 3537118876014219 / 2 ^ 50) = - 3537118876014219 / 2 ^ 50"
  proof -
    have w: "round_binary64 (3537118876014221 / 2 ^ 50 - TWO_PI64) = - 3537118876014219 / 2 ^ 50"
      by (subst round_binary64_eval [where e = 1]) (simp_all add: TWO_PI64_value M_PI64_def round_half_even_def)
    show ?thesis
      unfolding NormalizeAngle64_def na_sum_pos Let_def w by (simp add: M_PI64_def)
  qed
  have na_to_pos: "NormalizeAnglePositive64 (884279719003555 / 2 ^ 48) = 884279719003555 / 2 ^ 48"
  proof -
    have a: "fmod (884279719003555 / 2 ^ 48) TWO_PI64 = 884279719003555 / 2 ^ 48"
      by (simp add: fmod_def truncate_real_def TWO_PI64_value M_PI64_def)
    have b: "round_binary64 (884279719003555 / 2 ^ 48 + TWO_PI64) = 2652839157010665 / 2 ^ 48"
      by (subst round_binary64_eval [where e = 3]) (simp_all add: TWO_PI64_value M_PI64_def round_half_even_def)
    have c: "fmod (2652839157010665 / 2 ^ 48) TWO_PI64 = 884279719003555 / 2 ^ 48"
      by (simp add: fmod_def truncate_real_def TWO_PI64_value M_PI64_def)
    show ?thesis by (rule NormalizeAnglePositive64_evalI [OF a b c])
  qed
  have na_to: "NormalizeAngle64 (884279719003555 / 2 ^ 48) = 884279719003555 / 2 ^ 48"
    unfolding NormalizeAngle64_def na_to_pos Let_def by (simp add: M_PI64_def)
  have fr: "round_binary64 (- 5909720029612203 / 2 ^ 50) = - 5909720029612203 / 2 ^ 50"
    by (subst round_binary64_eval [where e = 2]) (simp_all add: TWO_PI64_value M_PI64_def round_half_even_def)

  have mr: "round_binary64 (884279719003555 / 2 ^ 48) = 884279719003555 / 2 ^ 48"
    using M_PI64_representable unfolding M_PI64_def .
  show ?thesis
    unfolding M_PI64_def sad sum na_sum na_to fr mr by simp
qed

end
